theory Spec2Isabelle
  imports Main
begin

section \<open>Values shared by the Go code and the database\<close>

text \<open>
  The errors the modelled functions return or compare against. \<open>ErrNoRows\<close> is
  \<^verbatim>\<open>sql.ErrNoRows\<close>, \<open>ErrPinnedThroughConfig\<close> the package variable of
  \<^verbatim>\<open>atc/db/resource.go\<close>, \<open>NonOneRowAffectedError n\<close> the struct of that name,
  \<open>ErrDecode\<close> an error of \<^verbatim>\<open>json.Unmarshal\<close>, and \<open>ErrDriver msg\<close> any other
  error handed back by the connection.
\<close>

datatype error =
    ErrNoRows
  | ErrPinnedThroughConfig
  | NonOneRowAffectedError int
  | ErrDecode
  | ErrDriver string

text \<open>
  A stored JSON document (a \<^verbatim>\<open>jsonb\<close> value or a text holding one).
\<close>

datatype json =
    JNull
  | JBool bool
  | JNum int
  | JStr string
  | JArr "json list"
  | JObj "(string \<times> json) list"

text \<open>\<^verbatim>\<open>atc.Version\<close> is \<^verbatim>\<open>map[string]string\<close>; the nil map is \<open>None\<close>.\<close>

type_synonym version = "(string \<times> string) list"

text \<open>
  \<^verbatim>\<open>sql.Result\<close>: what \<^verbatim>\<open>RowsAffected()\<close> returns, an error or a count.
\<close>

type_synonym sql_result = "error + int"

text \<open>
  \<^verbatim>\<open>ResourceConfigMetadataFields\<close> and \<^verbatim>\<open>[]atc.MetadataField\<close>: name and value
  pairs.
\<close>

type_synonym metadata = "(string \<times> string) list"

text \<open>
  A row of \<^verbatim>\<open>builds\<close>, which is also what a \<^verbatim>\<open>Build\<close> object holds once it
  is scanned: the columns the resource store reads or writes.
\<close>

record builds_row =
  b_id :: int
  b_name :: string
  b_status :: string
  b_job_id :: "int option"
  b_resource_id :: "int option"
  b_completed :: bool
  b_manually_triggered :: bool

text \<open>
  \<^verbatim>\<open>startedBuildArgs\<close>, with \<open>ExtraValues\<close> reduced to its one key
  \<^verbatim>\<open>"resource_id"\<close>; the plan and the span context are payload that no modelled
  statement inspects.
\<close>

record startedBuildArgs =
  args_Name :: string
  args_PipelineID :: int
  args_TeamID :: int
  args_ManuallyTriggered :: bool
  args_resource_id :: int

text \<open>
  What \<^verbatim>\<open>scanResource\<close> reads from a row of \<^verbatim>\<open>resourcesQuery\<close>, for the
  columns that end in the fields of \<open>resource\<close> below. The nullable columns are
  options, as the \<^verbatim>\<open>sql.Null*\<close> scan targets are.
\<close>

record resource_scan =
  sc_id :: int
  sc_name :: string
  sc_pipeline_id :: int
  sc_team_id :: int
  sc_rcID :: "int option"
  sc_rcScopeID :: "int option"
  sc_pinnedVersion :: "json option"
  sc_pinComment :: "string option"
  sc_pinnedThroughConfig :: "bool option"

text \<open>
  A \<^verbatim>\<open>ResourceConfigScope\<close>, by the two accessors the store calls:
  \<^verbatim>\<open>scope.ID()\<close> and \<^verbatim>\<open>scope.ResourceConfig().ID()\<close>.
\<close>

record ResourceConfigScope =
  scope_ID :: int
  scope_ResourceConfig_ID :: int

text \<open>\<^verbatim>\<open>Page\<close>, \<^verbatim>\<open>Pagination\<close> and \<^verbatim>\<open>atc.ResourceVersion\<close>; a nil pointer is \<open>None\<close>.\<close>

record Page =
  page_From :: "int option"
  page_To :: "int option"
  page_Limit :: int

record Pagination =
  pagination_Older :: "Page option"
  pagination_Newer :: "Page option"

record ResourceVersion =
  rv_ID :: int
  rv_Version :: "version option"
  rv_Metadata :: metadata
  rv_Enabled :: bool

text \<open>
  A row of the queries of \<^verbatim>\<open>Versions\<close>, as \<^verbatim>\<open>rows.Scan\<close> reads it: the id, the
  version text, the metadata (null, or a text given by what \<^verbatim>\<open>json.Unmarshal\<close>
  into \<^verbatim>\<open>[]atc.MetadataField\<close> returns for it), the check order, and whether the
  version is enabled.
\<close>

record version_scan =
  vs_id :: int
  vs_version :: json
  vs_metadata :: "(error + metadata) option"
  vs_check_order :: int
  vs_enabled :: bool

text \<open>The local \<^verbatim>\<open>struct rcvCheckOrder\<close> of \<^verbatim>\<open>Versions\<close>.\<close>

record rcvCheckOrder =
  ResourceConfigVersionID :: int
  CheckOrder :: int

section \<open>The connection the code is written against\<close>

text \<open>
  \<^verbatim>\<open>resource.go\<close> talks to the database through the interfaces \<^verbatim>\<open>Conn\<close> and
  \<^verbatim>\<open>Tx\<close>. A value of \<open>'s conn\<close> is an implementation of them over a state
  \<open>'s\<close>; there is one field for each SQL statement of the source, named after
  what the statement does, taking the statement's arguments and returning what the
  code scans from it.
\<close>

record 's conn =
  Begin :: "'s \<Rightarrow> error option \<times> 's"
  Commit :: "'s \<Rightarrow> error option \<times> 's"
  Rollback :: "'s \<Rightarrow> 's"
  Notify :: "string \<Rightarrow> 's \<Rightarrow> error option \<times> 's"
  queryPinnedThroughConfig :: "int \<Rightarrow> 's \<Rightarrow> (error + bool) \<times> 's"
  execUpsertPin :: "int \<Rightarrow> int \<Rightarrow> 's \<Rightarrow> (error + sql_result) \<times> 's"
  execDeletePin :: "int \<Rightarrow> 's \<Rightarrow> (error + sql_result) \<times> 's"
  execDeleteDisabledVersion :: "int \<Rightarrow> int \<Rightarrow> 's \<Rightarrow> (error + sql_result) \<times> 's"
  execInsertDisabledVersion :: "int \<Rightarrow> int \<Rightarrow> 's \<Rightarrow> (error + sql_result) \<times> 's"
  queryJobsUsingResource :: "int \<Rightarrow> 's \<Rightarrow> (error + int list) \<times> 's"
  execRequestSchedule :: "int \<Rightarrow> 's \<Rightarrow> (error + sql_result) \<times> 's"
  execSetResourceConfigScope :: "int \<Rightarrow> int \<Rightarrow> int \<Rightarrow> 's \<Rightarrow> (error + sql_result) \<times> 's"
  execUpdateMetadata ::
    "int \<Rightarrow> version option \<Rightarrow> metadata \<Rightarrow> 's \<Rightarrow> (error + sql_result) \<times> 's"
  queryBuildCompleted :: "int \<Rightarrow> 's \<Rightarrow> (error + bool) \<times> 's"
  createStartedBuild :: "startedBuildArgs \<Rightarrow> 's \<Rightarrow> (error + builds_row) \<times> 's"
  execSetResourceBuild :: "int \<Rightarrow> int \<Rightarrow> 's \<Rightarrow> (error + sql_result) \<times> 's"
  reloadBuild :: "builds_row \<Rightarrow> 's \<Rightarrow> (error + builds_row \<times> bool) \<times> 's"
  queryResource :: "int \<Rightarrow> 's \<Rightarrow> (error + resource_scan) \<times> 's"
  queryVersionsFrom :: "int \<Rightarrow> int \<Rightarrow> int \<Rightarrow> version \<Rightarrow> 's \<Rightarrow> (error + version_scan list) \<times> 's"
  queryVersionsTo :: "int \<Rightarrow> int \<Rightarrow> int \<Rightarrow> version \<Rightarrow> 's \<Rightarrow> (error + version_scan list) \<times> 's"
  queryVersionsLatest :: "int \<Rightarrow> int \<Rightarrow> version \<Rightarrow> 's \<Rightarrow> (error + version_scan list) \<times> 's"
  queryOlderVersion :: "int \<Rightarrow> int \<Rightarrow> 's \<Rightarrow> (error + int) \<times> 's"
  queryNewerVersion :: "int \<Rightarrow> int \<Rightarrow> 's \<Rightarrow> (error + int) \<times> 's"

text \<open>
  The fields of \<^verbatim>\<open>struct resource\<close> that the modelled methods read.
\<close>

record resource =
  r_id :: int
  r_name :: string
  r_teamID :: int
  r_pipelineID :: int
  r_configPinnedVersion :: "version option"
  r_apiPinnedVersion :: "version option"
  r_pinComment :: string
  r_resourceConfigID :: int
  r_resourceConfigScopeID :: int

section \<open>The resource store\<close>

text \<open>\<^verbatim>\<open>defer Rollback(tx)\<close>: runs when the function returns, whatever it returns.\<close>

definition deferRollback :: "'s conn \<Rightarrow> 'a \<times> 's \<Rightarrow> 'a \<times> 's" where
  "deferRollback c out = (case out of (res, s) \<Rightarrow> (res, Rollback c s))"

text \<open>
  The second loop of \<^verbatim>\<open>requestScheduleForJobsUsingResource\<close>: one UPDATE per job
  id, in the order of the list, stopping at the first error.
\<close>

fun requestScheduleLoop :: "'s conn \<Rightarrow> int list \<Rightarrow> 's \<Rightarrow> error option \<times> 's" where
  "requestScheduleLoop c [] s = (None, s)"
| "requestScheduleLoop c (j # js) s =
     (case execRequestSchedule c j s of
        (Inl err, s) \<Rightarrow> (Some err, s)
      | (Inr _, s) \<Rightarrow> requestScheduleLoop c js s)"

definition requestScheduleForJobsUsingResource ::
  "'s conn \<Rightarrow> int \<Rightarrow> 's \<Rightarrow> error option \<times> 's" where
  "requestScheduleForJobsUsingResource c resourceID s =
     (case queryJobsUsingResource c resourceID s of
        (Inl err, s) \<Rightarrow> (Some err, s)
      | (Inr jobs, s) \<Rightarrow> requestScheduleLoop c jobs s)"

definition PinVersion :: "'s conn \<Rightarrow> resource \<Rightarrow> int \<Rightarrow> 's \<Rightarrow> (bool \<times> error option) \<times> 's" where
  "PinVersion c r rcvID s =
     (case Begin c s of
        (Some err, s) \<Rightarrow> ((False, Some err), s)
      | (None, s) \<Rightarrow> deferRollback c
          (case queryPinnedThroughConfig c (r_id r) s of
             (Inl err, s) \<Rightarrow> ((False, Some err), s)
           | (Inr pinnedThroughConfig, s) \<Rightarrow>
               if pinnedThroughConfig then ((False, Some ErrPinnedThroughConfig), s)
               else
                 (case execUpsertPin c (r_id r) rcvID s of
                    (Inl err, s) \<Rightarrow>
                      if err = ErrNoRows then ((False, None), s) else ((False, Some err), s)
                  | (Inr (Inl err), s) \<Rightarrow> ((False, Some err), s)
                  | (Inr (Inr rowsAffected), s) \<Rightarrow>
                      if rowsAffected \<noteq> 1 then ((False, None), s)
                      else
                        (case requestScheduleForJobsUsingResource c (r_id r) s of
                           (Some err, s) \<Rightarrow> ((False, Some err), s)
                         | (None, s) \<Rightarrow>
                             (case Commit c s of
                                (Some err, s) \<Rightarrow> ((False, Some err), s)
                              | (None, s) \<Rightarrow> ((True, None), s))))))"

definition UnpinVersion :: "'s conn \<Rightarrow> resource \<Rightarrow> 's \<Rightarrow> error option \<times> 's" where
  "UnpinVersion c r s =
     (case Begin c s of
        (Some err, s) \<Rightarrow> (Some err, s)
      | (None, s) \<Rightarrow> deferRollback c
          (case execDeletePin c (r_id r) s of
             (Inl err, s) \<Rightarrow> (Some err, s)
           | (Inr (Inl err), s) \<Rightarrow> (Some err, s)
           | (Inr (Inr rowsAffected), s) \<Rightarrow>
               if rowsAffected \<noteq> 1 then (Some (NonOneRowAffectedError rowsAffected), s)
               else
                 (case requestScheduleForJobsUsingResource c (r_id r) s of
                    (Some err, s) \<Rightarrow> (Some err, s)
                  | (None, s) \<Rightarrow>
                      (case Commit c s of
                         (Some err, s) \<Rightarrow> (Some err, s)
                       | (None, s) \<Rightarrow> (None, s)))))"

definition toggleVersion :: "'s conn \<Rightarrow> resource \<Rightarrow> int \<Rightarrow> bool \<Rightarrow> 's \<Rightarrow> error option \<times> 's" where
  "toggleVersion c r rcvID enable s =
     (case Begin c s of
        (Some err, s) \<Rightarrow> (Some err, s)
      | (None, s) \<Rightarrow> deferRollback c
          (case (if enable then execDeleteDisabledVersion c (r_id r) rcvID s
                 else execInsertDisabledVersion c (r_id r) rcvID s) of
             (Inl err, s) \<Rightarrow> (Some err, s)
           | (Inr (Inl err), s) \<Rightarrow> (Some err, s)
           | (Inr (Inr rowsAffected), s) \<Rightarrow>
               if rowsAffected \<noteq> 1 then (Some (NonOneRowAffectedError rowsAffected), s)
               else
                 (case requestScheduleForJobsUsingResource c (r_id r) s of
                    (Some err, s) \<Rightarrow> (Some err, s)
                  | (None, s) \<Rightarrow> Commit c s)))"

definition EnableVersion :: "'s conn \<Rightarrow> resource \<Rightarrow> int \<Rightarrow> 's \<Rightarrow> error option \<times> 's" where
  "EnableVersion c r rcvID s = toggleVersion c r rcvID True s"

definition DisableVersion :: "'s conn \<Rightarrow> resource \<Rightarrow> int \<Rightarrow> 's \<Rightarrow> error option \<times> 's" where
  "DisableVersion c r rcvID s = toggleVersion c r rcvID False s"

definition setResourceConfigScopeInTransaction ::
  "'s conn \<Rightarrow> resource \<Rightarrow> ResourceConfigScope \<Rightarrow> 's \<Rightarrow> error option \<times> 's" where
  "setResourceConfigScopeInTransaction c r scope s =
     (case execSetResourceConfigScope c (r_id r) (scope_ResourceConfig_ID scope) (scope_ID scope) s of
        (Inl err, s) \<Rightarrow> (Some err, s)
      | (Inr (Inl err), s) \<Rightarrow> (Some err, s)
      | (Inr (Inr rowsAffected), s) \<Rightarrow>
          if rowsAffected > 0 then
            (case requestScheduleForJobsUsingResource c (r_id r) s of
               (Some err, s) \<Rightarrow> (Some err, s)
             | (None, s) \<Rightarrow> (None, s))
          else (None, s))"

definition SetResourceConfigScope ::
  "'s conn \<Rightarrow> resource \<Rightarrow> ResourceConfigScope \<Rightarrow> 's \<Rightarrow> error option \<times> 's" where
  "SetResourceConfigScope c r scope s =
     (case Begin c s of
        (Some err, s) \<Rightarrow> (Some err, s)
      | (None, s) \<Rightarrow> deferRollback c
          (case setResourceConfigScopeInTransaction c r scope s of
             (Some err, s) \<Rightarrow> (Some err, s)
           | (None, s) \<Rightarrow>
               (case Commit c s of
                  (Some err, s) \<Rightarrow> (Some err, s)
                | (None, s) \<Rightarrow> (None, s))))"

text \<open>
  \<^verbatim>\<open>UpdateMetadata\<close>. The two \<^verbatim>\<open>json.Marshal\<close> calls encode a
  \<^verbatim>\<open>map[string]string\<close> and a slice of structs of strings, which the encoder
  never refuses, so they have no error branch here; the statement receives the
  values and the database hashes and stores their encodings. It runs on the
  connection, outside any transaction.
\<close>

definition UpdateMetadata ::
  "'s conn \<Rightarrow> resource \<Rightarrow> version option \<Rightarrow> metadata \<Rightarrow> 's \<Rightarrow> (bool \<times> error option) \<times> 's" where
  "UpdateMetadata c r version metadata s =
     (case execUpdateMetadata c (r_resourceConfigScopeID r) version metadata s of
        (Inl err, s) \<Rightarrow>
          if err = ErrNoRows then ((False, None), s) else ((False, Some err), s)
      | (Inr _, s) \<Rightarrow> ((True, None), s))"

definition CheckBuildName :: string where
  "CheckBuildName = ''check''"

text \<open>
  \<^verbatim>\<open>CreateBuild\<close>, from \<^verbatim>\<open>build := newEmptyBuild(...)\<close> on. The channel name
  \<^verbatim>\<open>atc.ComponentBuildTracker\<close> is a constant declared outside the excerpt and is a
  parameter here.
\<close>

definition createAndLinkBuild ::
  "'s conn \<Rightarrow> string \<Rightarrow> resource \<Rightarrow> bool \<Rightarrow> 's \<Rightarrow>
     (builds_row option \<times> bool \<times> error option) \<times> 's" where
  "createAndLinkBuild c ComponentBuildTracker r manuallyTriggered s =
     (case createStartedBuild c
             \<lparr>args_Name = CheckBuildName, args_PipelineID = r_pipelineID r,
              args_TeamID = r_teamID r, args_ManuallyTriggered = manuallyTriggered,
              args_resource_id = r_id r\<rparr> s of
        (Inl err, s) \<Rightarrow> ((None, False, Some err), s)
      | (Inr build, s) \<Rightarrow>
          (case execSetResourceBuild c (r_id r) (b_id build) s of
             (Inl err, s) \<Rightarrow> ((None, False, Some err), s)
           | (Inr _, s) \<Rightarrow>
               (case Commit c s of
                  (Some err, s) \<Rightarrow> ((None, False, Some err), s)
                | (None, s) \<Rightarrow>
                    (case Notify c ComponentBuildTracker s of
                       (Some err, s) \<Rightarrow> ((None, False, Some err), s)
                     | (None, s) \<Rightarrow>
                         (case reloadBuild c build s of
                            (Inl err, s) \<Rightarrow> ((None, False, Some err), s)
                          | (Inr (build, _), s) \<Rightarrow> ((Some build, True, None), s))))))"

text \<open>
  \<^verbatim>\<open>CreateBuild\<close>. The context only feeds the span context of the new row and
  the plan is stored as it is, so neither is an argument. \<open>completed\<close> and
  \<open>noBuild\<close> start as \<open>false\<close>: the build is left alone exactly when the scan
  succeeded and read \<open>false\<close>.
\<close>

definition CreateBuild ::
  "'s conn \<Rightarrow> string \<Rightarrow> resource \<Rightarrow> bool \<Rightarrow> 's \<Rightarrow>
     (builds_row option \<times> bool \<times> error option) \<times> 's" where
  "CreateBuild c ComponentBuildTracker r manuallyTriggered s =
     (case Begin c s of
        (Some err, s) \<Rightarrow> ((None, False, Some err), s)
      | (None, s) \<Rightarrow> deferRollback c
          (if \<not> manuallyTriggered then
             (case queryBuildCompleted c (r_id r) s of
                (Inl err, s) \<Rightarrow>
                  if err = ErrNoRows
                  then createAndLinkBuild c ComponentBuildTracker r manuallyTriggered s
                  else ((None, False, Some err), s)
              | (Inr completed, s) \<Rightarrow>
                  if \<not> completed then ((None, False, None), s)
                  else createAndLinkBuild c ComponentBuildTracker r manuallyTriggered s)
           else createAndLinkBuild c ComponentBuildTracker r manuallyTriggered s))"

text \<open>
  \<^verbatim>\<open>json.Unmarshal\<close> into an \<^verbatim>\<open>atc.Version\<close> that is nil: null leaves it nil, an
  object of strings fills a new map (a null member leaves its entry the empty
  string), anything else is an error.
\<close>

fun unmarshalMember :: "string \<times> json \<Rightarrow> (string \<times> string) option" where
  "unmarshalMember (k, JStr x) = Some (k, x)"
| "unmarshalMember (k, JNull) = Some (k, [])"
| "unmarshalMember (k, _) = None"

fun unmarshalVersion :: "json \<Rightarrow> error + version option" where
  "unmarshalVersion JNull = Inr None"
| "unmarshalVersion (JObj kvs) =
     (if list_all (\<lambda>kv. unmarshalMember kv \<noteq> None) kvs
      then Inr (Some (map (\<lambda>kv. the (unmarshalMember kv)) kvs))
      else Inl ErrDecode)"
| "unmarshalVersion _ = Inl ErrDecode"

text \<open>
  \<^verbatim>\<open>scanResource\<close>, for the columns of \<open>resource_scan\<close>: the pinned version is
  the config pin when \<open>rp.config\<close> is true and the API pin otherwise; a null
  config or scope id leaves the field as it was.
\<close>

definition scanResource :: "resource \<Rightarrow> resource_scan \<Rightarrow> error + resource" where
  "scanResource r row =
     (let r = r\<lparr>r_id := sc_id row, r_name := sc_name row, r_pipelineID := sc_pipeline_id row,
                 r_teamID := sc_team_id row\<rparr> in
      case (case sc_pinnedVersion row of
              Some text \<Rightarrow>
                (case unmarshalVersion text of
                   Inl err \<Rightarrow> Inl err
                 | Inr version \<Rightarrow>
                     if sc_pinnedThroughConfig row = Some True
                     then Inr (r\<lparr>r_configPinnedVersion := version, r_apiPinnedVersion := None\<rparr>)
                     else Inr (r\<lparr>r_configPinnedVersion := None, r_apiPinnedVersion := version\<rparr>))
            | None \<Rightarrow> Inr (r\<lparr>r_apiPinnedVersion := None, r_configPinnedVersion := None\<rparr>)) of
        Inl err \<Rightarrow> Inl err
      | Inr r \<Rightarrow>
          (let r = r\<lparr>r_pinComment := (case sc_pinComment row of Some c \<Rightarrow> c | None \<Rightarrow> [])\<rparr>;
               r = (case sc_rcID row of Some n \<Rightarrow> r\<lparr>r_resourceConfigID := n\<rparr> | None \<Rightarrow> r);
               r = (case sc_rcScopeID row of
                      Some n \<Rightarrow> r\<lparr>r_resourceConfigScopeID := n\<rparr> | None \<Rightarrow> r)
           in Inr r))"

text \<open>
  \<^verbatim>\<open>Reload\<close>: the receiver is returned with the result, since the method scans
  into it. A failed scan leaves the fields assigned before the failure; the model
  returns the receiver as it was, and no property below reads it after an error.
\<close>

definition Reload :: "'s conn \<Rightarrow> resource \<Rightarrow> 's \<Rightarrow> ((bool \<times> error option) \<times> resource) \<times> 's" where
  "Reload c r s =
     (case queryResource c (r_id r) s of
        (Inl err, s) \<Rightarrow>
          if err = ErrNoRows then (((False, None), r), s) else (((False, Some err), r), s)
      | (Inr row, s) \<Rightarrow>
          (case scanResource r row of
             Inl err \<Rightarrow> (((False, Some err), r), s)
           | Inr r \<Rightarrow> (((True, None), r), s)))"

definition CurrentPinnedVersion :: "resource \<Rightarrow> version option" where
  "CurrentPinnedVersion r =
     (if r_configPinnedVersion r \<noteq> None then r_configPinnedVersion r
      else if r_apiPinnedVersion r \<noteq> None then r_apiPinnedVersion r
      else None)"

text \<open>
  The loop over \<^verbatim>\<open>rows\<close> in \<^verbatim>\<open>Versions\<close>: each row is decoded and appended to
  \<open>rvs\<close> and \<open>checkOrderRVs\<close>; the first row that does not decode ends the
  method with the error.
\<close>

fun scanVersions :: "version_scan list \<Rightarrow> error + ResourceVersion list \<times> rcvCheckOrder list" where
  "scanVersions [] = Inr ([], [])"
| "scanVersions (row # rows) =
     (case unmarshalVersion (vs_version row) of
        Inl err \<Rightarrow> Inl err
      | Inr version \<Rightarrow>
          (case (case vs_metadata row of
                   Some (Inl err) \<Rightarrow> Inl err
                 | Some (Inr md) \<Rightarrow> Inr md
                 | None \<Rightarrow> Inr []) of
             Inl err \<Rightarrow> Inl err
           | Inr md \<Rightarrow>
               (case scanVersions rows of
                  Inl err \<Rightarrow> Inl err
                | Inr (rvs, checkOrderRVs) \<Rightarrow>
                    Inr (\<lparr>rv_ID = vs_id row, rv_Version = version, rv_Metadata = md,
                          rv_Enabled = vs_enabled row\<rparr> # rvs,
                         \<lparr>ResourceConfigVersionID = vs_id row,
                          CheckOrder = vs_check_order row\<rparr> # checkOrderRVs))))"

text \<open>
  \<^verbatim>\<open>Versions\<close>, after the rows are read: the cursors to the next older and the
  next newer version, and the commit, whose error is not returned.
\<close>

definition versionsPagination ::
  "'s conn \<Rightarrow> resource \<Rightarrow> Page \<Rightarrow> ResourceVersion list \<Rightarrow> rcvCheckOrder list \<Rightarrow> 's \<Rightarrow>
     (ResourceVersion list \<times> Pagination \<times> bool \<times> error option) \<times> 's" where
  "versionsPagination c r page rvs checkOrderRVs s =
     (let newestRCVCheckOrder = hd checkOrderRVs;
          oldestRCVCheckOrder = last checkOrderRVs;
          none = \<lparr>pagination_Older = None, pagination_Newer = None\<rparr>
      in case queryOlderVersion c (r_id r) (CheckOrder oldestRCVCheckOrder) s of
           (older, s) \<Rightarrow>
             if older \<noteq> Inl ErrNoRows \<and> isl older
             then (([], none, False, Some (projl older)), s)
             else
               (let pagination =
                      (case older of
                         Inr olderRCVId \<Rightarrow>
                           none\<lparr>pagination_Older :=
                             Some \<lparr>page_From = None, page_To = Some olderRCVId,
                                   page_Limit = page_Limit page\<rparr>\<rparr>
                       | Inl _ \<Rightarrow> none)
                in case queryNewerVersion c (r_id r) (CheckOrder newestRCVCheckOrder) s of
                     (newer, s) \<Rightarrow>
                       if newer \<noteq> Inl ErrNoRows \<and> isl newer
                       then (([], none, False, Some (projl newer)), s)
                       else
                         (let pagination =
                                (case newer of
                                   Inr newerRCVId \<Rightarrow>
                                     pagination\<lparr>pagination_Newer :=
                                       Some \<lparr>page_From = Some newerRCVId, page_To = None,
                                             page_Limit = page_Limit page\<rparr>\<rparr>
                                 | Inl _ \<Rightarrow> pagination)
                          in case Commit c s of
                               (Some err, s) \<Rightarrow> (([], none, False, None), s)
                             | (None, s) \<Rightarrow> ((rvs, pagination, True, None), s))))"

text \<open>
  \<^verbatim>\<open>Versions\<close>. The filter is the empty object when \<open>versionFilter\<close> has no
  entry, and its encoding otherwise; the encoder never refuses a
  \<^verbatim>\<open>map[string]string\<close>. A nil slice and an empty one are both \<open>[]\<close>.
  \<open>versionsPagination\<close> runs only when \<open>rvs\<close> is not empty, so that \<open>hd\<close> and
  \<open>last\<close> there read \<^verbatim>\<open>checkOrderRVs[0]\<close> and the last element.
\<close>

definition Versions ::
  "'s conn \<Rightarrow> resource \<Rightarrow> Page \<Rightarrow> version option \<Rightarrow> 's \<Rightarrow>
     (ResourceVersion list \<times> Pagination \<times> bool \<times> error option) \<times> 's" where
  "Versions c r page versionFilter s =
     (let none = \<lparr>pagination_Older = None, pagination_Newer = None\<rparr> in
      case Begin c s of
        (Some err, s) \<Rightarrow> (([], none, False, Some err), s)
      | (None, s) \<Rightarrow> deferRollback c
          (let filterJSON = (case versionFilter of None \<Rightarrow> [] | Some kvs \<Rightarrow> kvs)
           in case (case page_From page of
                      Some from \<Rightarrow> queryVersionsFrom c (r_id r) from (page_Limit page) filterJSON s
                    | None \<Rightarrow>
                        (case page_To page of
                           Some to \<Rightarrow> queryVersionsTo c (r_id r) to (page_Limit page) filterJSON s
                         | None \<Rightarrow> queryVersionsLatest c (r_id r) (page_Limit page) filterJSON s)) of
                (Inl err, s) \<Rightarrow> (([], none, False, Some err), s)
              | (Inr rows, s) \<Rightarrow>
                  (case scanVersions rows of
                     Inl err \<Rightarrow> (([], none, False, Some err), s)
                   | Inr (rvs, checkOrderRVs) \<Rightarrow>
                       if length rvs = 0 then (([], none, True, None), s)
                       else versionsPagination c r page rvs checkOrderRVs s)))"

section \<open>The database\<close>

text \<open>
  The tables the statements of \<^verbatim>\<open>resource.go\<close> name, with the columns they
  name. A table is the list of its rows in the order a scan without
  \<^verbatim>\<open>ORDER BY\<close> returns them. \<^verbatim>\<open>resource_pins\<close> is keyed by \<open>resource_id\<close>, the
  conflict target of the upsert in \<^verbatim>\<open>PinVersion\<close>, and its \<open>version\<close> is not
  null. Timestamps are natural numbers.
\<close>

record resources_row =
  res_id :: int
  res_name :: string
  res_pipeline_id :: int
  res_active :: bool
  res_resource_config_id :: "int option"
  res_resource_config_scope_id :: "int option"
  res_build_id :: "int option"

text \<open>
  The \<open>metadata\<close> column is null or a text; the text is given by what
  \<^verbatim>\<open>json.Unmarshal\<close> into \<^verbatim>\<open>[]atc.MetadataField\<close> returns for it.
\<close>

record rcv_row =
  v_id :: int
  v_resource_config_scope_id :: int
  v_version :: json
  v_version_md5 :: string
  v_metadata :: "(error + metadata) option"
  v_check_order :: int

record pin_row =
  rp_version :: json
  rp_comment_text :: string
  rp_config :: bool

record jobs_row =
  j_id :: int
  j_name :: string
  j_schedule_requested :: nat

record db =
  builds :: "builds_row list"
  resources :: "resources_row list"
  pipelines :: "(int \<times> int) list"
  teams :: "int list"
  resource_config_versions :: "rcv_row list"
  resource_pins :: "int \<rightharpoonup> pin_row"
  resource_disabled_versions :: "(int \<times> string) list"
  job_inputs :: "(int \<times> int) list"
  jobs :: "jobs_row list"

text \<open>
  \<open>pipelines\<close> holds \<open>(id, team_id)\<close>, \<open>teams\<close> the ids,
  \<open>resource_disabled_versions\<close> holds \<open>(resource_id, version_md5)\<close> and
  \<open>job_inputs\<close> holds \<open>(job_id, resource_id)\<close>.

  The state of the connection: the committed database, the working copy of the
  open transaction if there is one, the clock that \<^verbatim>\<open>now()\<close> reads, the
  channels notified so far, and the job ids of the
  \<^verbatim>\<open>UPDATE jobs SET schedule_requested\<close> statements issued so far, in the order
  they were issued.
\<close>

record world =
  committed :: db
  open_tx :: "db option"
  clock :: nat
  notifications :: "string list"
  schedule_log :: "int list"

text \<open>
  A statement runs on the working copy of the open transaction, or on the
  committed database when none is open.
\<close>

definition run :: "(db \<Rightarrow> 'a \<times> db) \<Rightarrow> world \<Rightarrow> 'a \<times> world" where
  "run f w =
     (case open_tx w of
        Some d \<Rightarrow> (case f d of (x, d') \<Rightarrow> (x, w\<lparr>open_tx := Some d'\<rparr>))
      | None \<Rightarrow> (case f (committed w) of (x, d') \<Rightarrow> (x, w\<lparr>committed := d'\<rparr>)))"

definition ask :: "(db \<Rightarrow> 'a) \<Rightarrow> world \<Rightarrow> 'a \<times> world" where
  "ask f w = (case open_tx w of Some d \<Rightarrow> (f d, w) | None \<Rightarrow> (f (committed w), w))"

definition pg_Begin :: "world \<Rightarrow> error option \<times> world" where
  "pg_Begin w =
     (case open_tx w of
        Some _ \<Rightarrow> (Some (ErrDriver ''a transaction is already open''), w)
      | None \<Rightarrow> (None, w\<lparr>open_tx := Some (committed w)\<rparr>))"

definition pg_Commit :: "world \<Rightarrow> error option \<times> world" where
  "pg_Commit w =
     (case open_tx w of
        None \<Rightarrow> (Some (ErrDriver ''sql: transaction has already been committed or rolled back''), w)
      | Some d \<Rightarrow> (None, w\<lparr>committed := d, open_tx := None\<rparr>))"

definition pg_Rollback :: "world \<Rightarrow> world" where
  "pg_Rollback w = w\<lparr>open_tx := None\<rparr>"

definition pg_Notify :: "string \<Rightarrow> world \<Rightarrow> error option \<times> world" where
  "pg_Notify channel w = (None, w\<lparr>notifications := notifications w @ [channel]\<rparr>)"

text \<open>A scalar subquery: no row is null, one row is its value, more is an error.\<close>

definition scalar :: "'a list \<Rightarrow> error + 'a option" where
  "scalar xs =
     (case xs of
        [] \<Rightarrow> Inr None
      | [x] \<Rightarrow> Inr (Some x)
      | _ \<Rightarrow> Inl (ErrDriver ''more than one row returned by a subquery used as an expression''))"

text \<open>
  \<^verbatim>\<open>SELECT EXISTS (SELECT 1 FROM resource_pins WHERE resource_id = $1 AND config)\<close>
\<close>

definition sql_pinned_through_config :: "int \<Rightarrow> db \<Rightarrow> error + bool" where
  "sql_pinned_through_config rid d =
     Inr (case resource_pins d rid of None \<Rightarrow> False | Some p \<Rightarrow> rp_config p)"

text \<open>
  \<^verbatim>\<open>INSERT INTO resource_pins(resource_id, version, comment_text, config)
  VALUES ($1, (SELECT rcv.version FROM resource_config_versions rcv WHERE rcv.id = $2), '', false)
  ON CONFLICT (resource_id) DO UPDATE SET version=EXCLUDED.version\<close>
\<close>

definition sql_upsert_pin :: "int \<Rightarrow> int \<Rightarrow> db \<Rightarrow> (error + sql_result) \<times> db" where
  "sql_upsert_pin rid rcvID d =
     (case scalar [v_version v. v \<leftarrow> resource_config_versions d, v_id v = rcvID] of
        Inl err \<Rightarrow> (Inl err, d)
      | Inr None \<Rightarrow>
          (Inl (ErrDriver ''null value in column version violates not-null constraint''), d)
      | Inr (Some ver) \<Rightarrow>
          (Inr (Inr 1),
           d\<lparr>resource_pins := (resource_pins d)(rid \<mapsto>
               (case resource_pins d rid of
                  None \<Rightarrow> \<lparr>rp_version = ver, rp_comment_text = [], rp_config = False\<rparr>
                | Some p \<Rightarrow> p\<lparr>rp_version := ver\<rparr>))\<rparr>))"

text \<open>\<^verbatim>\<open>DELETE FROM resource_pins WHERE resource_pins.resource_id = $1\<close>\<close>

definition sql_delete_pin :: "int \<Rightarrow> db \<Rightarrow> (error + sql_result) \<times> db" where
  "sql_delete_pin rid d =
     (case resource_pins d rid of
        None \<Rightarrow> (Inr (Inr 0), d)
      | Some _ \<Rightarrow> (Inr (Inr 1), d\<lparr>resource_pins := (resource_pins d)(rid := None)\<rparr>))"

text \<open>
  \<^verbatim>\<open>DELETE FROM resource_disabled_versions WHERE resource_id = $1 AND version_md5 =
  (SELECT version_md5 FROM resource_config_versions rcv WHERE rcv.id = $2)\<close>
\<close>

definition sql_delete_disabled_version :: "int \<Rightarrow> int \<Rightarrow> db \<Rightarrow> (error + sql_result) \<times> db" where
  "sql_delete_disabled_version rid rcvID d =
     (case scalar [v_version_md5 v. v \<leftarrow> resource_config_versions d, v_id v = rcvID] of
        Inl err \<Rightarrow> (Inl err, d)
      | Inr None \<Rightarrow> (Inr (Inr 0), d)
      | Inr (Some md5) \<Rightarrow>
          (Inr (Inr (int (length (filter (\<lambda>x. x = (rid, md5)) (resource_disabled_versions d))))),
           d\<lparr>resource_disabled_versions :=
               filter (\<lambda>x. x \<noteq> (rid, md5)) (resource_disabled_versions d)\<rparr>))"

text \<open>
  \<^verbatim>\<open>INSERT INTO resource_disabled_versions (resource_id, version_md5)
  SELECT $1, rcv.version_md5 FROM resource_config_versions rcv WHERE rcv.id = $2\<close>
\<close>

definition sql_insert_disabled_version :: "int \<Rightarrow> int \<Rightarrow> db \<Rightarrow> (error + sql_result) \<times> db" where
  "sql_insert_disabled_version rid rcvID d =
     (let new = [(rid, v_version_md5 v). v \<leftarrow> resource_config_versions d, v_id v = rcvID]
      in (Inr (Inr (int (length new))),
          d\<lparr>resource_disabled_versions := resource_disabled_versions d @ new\<rparr>))"

text \<open>
  \<^verbatim>\<open>SELECT DISTINCT job_id FROM job_inputs WHERE resource_id = $1 ORDER BY job_id DESC\<close>
\<close>

definition sql_jobs_using_resource :: "int \<Rightarrow> db \<Rightarrow> error + int list" where
  "sql_jobs_using_resource rid d =
     Inr (rev (sort (remdups [fst ji. ji \<leftarrow> job_inputs d, snd ji = rid])))"

text \<open>\<^verbatim>\<open>UPDATE jobs SET schedule_requested = now() WHERE id = $1\<close>\<close>

definition sql_request_schedule :: "nat \<Rightarrow> int \<Rightarrow> db \<Rightarrow> (error + sql_result) \<times> db" where
  "sql_request_schedule now jid d =
     (Inr (Inr (int (length (filter (\<lambda>j. j_id j = jid) (jobs d))))),
      d\<lparr>jobs := map (\<lambda>j. if j_id j = jid then j\<lparr>j_schedule_requested := now\<rparr> else j) (jobs d)\<rparr>)"

text \<open>
  \<^verbatim>\<open>UPDATE resources SET resource_config_id = $1, resource_config_scope_id = $2
  WHERE id = $3 AND (resource_config_id IS NULL OR resource_config_scope_id IS NULL
  OR resource_config_id <> $1 OR resource_config_scope_id <> $2)\<close>
\<close>

definition scope_differs :: "int \<Rightarrow> int \<Rightarrow> int \<Rightarrow> resources_row \<Rightarrow> bool" where
  "scope_differs rid rcID scopeID row \<longleftrightarrow>
     res_id row = rid \<and>
     (res_resource_config_id row = None \<or> res_resource_config_scope_id row = None \<or>
      res_resource_config_id row \<noteq> Some rcID \<or> res_resource_config_scope_id row \<noteq> Some scopeID)"

definition sql_set_resource_config_scope ::
  "int \<Rightarrow> int \<Rightarrow> int \<Rightarrow> db \<Rightarrow> (error + sql_result) \<times> db" where
  "sql_set_resource_config_scope rid rcID scopeID d =
     (Inr (Inr (int (length (filter (scope_differs rid rcID scopeID) (resources d))))),
      d\<lparr>resources :=
          map (\<lambda>row. if scope_differs rid rcID scopeID row
                     then row\<lparr>res_resource_config_id := Some rcID,
                              res_resource_config_scope_id := Some scopeID\<rparr>
                     else row) (resources d)\<rparr>)"

text \<open>
  \<^verbatim>\<open>UPDATE resource_config_versions SET metadata = $1
  WHERE resource_config_scope_id = $2 AND version_md5 = md5($3)\<close>,
  where \<open>md5\<close> gives the hash of the encoding of a version.
\<close>

definition sql_update_metadata ::
  "(version option \<Rightarrow> string) \<Rightarrow> int \<Rightarrow> version option \<Rightarrow> metadata \<Rightarrow> db \<Rightarrow>
     (error + sql_result) \<times> db" where
  "sql_update_metadata md5 scopeID version metadata d =
     (let hit = (\<lambda>v. v_resource_config_scope_id v = scopeID \<and> v_version_md5 v = md5 version)
      in (Inr (Inr (int (length (filter hit (resource_config_versions d))))),
          d\<lparr>resource_config_versions :=
              map (\<lambda>v. if hit v then v\<lparr>v_metadata := Some (Inr metadata)\<rparr> else v)
                (resource_config_versions d)\<rparr>))"

text \<open>
  \<^verbatim>\<open>SELECT completed FROM builds WHERE resource_id = $1\<close>, read with
  \<^verbatim>\<open>QueryRow().Scan\<close>: the first row, or \<^verbatim>\<open>sql.ErrNoRows\<close>.
\<close>

definition sql_build_completed :: "int \<Rightarrow> db \<Rightarrow> error + bool" where
  "sql_build_completed rid d =
     (case [b_completed b. b \<leftarrow> builds d, b_resource_id b = Some rid] of
        [] \<Rightarrow> Inl ErrNoRows
      | completed # _ \<Rightarrow> Inr completed)"

text \<open>
  Modelled from the spec: \<^verbatim>\<open>createStartedBuild\<close> is defined outside the excerpt.
  The spec has it insert a started build row with the given name, which
  \<^verbatim>\<open>CreateBuild\<close> then reads the id of; the row gets the next free id, the
  \<open>resource_id\<close> of the extra values, no job, and is not completed.
\<close>

definition sql_create_started_build :: "startedBuildArgs \<Rightarrow> db \<Rightarrow> (error + builds_row) \<times> db" where
  "sql_create_started_build args d =
     (let build = \<lparr>b_id = foldr max (map b_id (builds d)) 0 + 1, b_name = args_Name args,
                    b_status = ''started'', b_job_id = None,
                    b_resource_id = Some (args_resource_id args), b_completed = False,
                    b_manually_triggered = args_ManuallyTriggered args\<rparr>
      in (Inr build, d\<lparr>builds := builds d @ [build]\<rparr>))"

text \<open>\<^verbatim>\<open>UPDATE resources SET build_id = $1 WHERE id = $2\<close>\<close>

definition sql_set_resource_build :: "int \<Rightarrow> int \<Rightarrow> db \<Rightarrow> (error + sql_result) \<times> db" where
  "sql_set_resource_build rid buildID d =
     (Inr (Inr (int (length (filter (\<lambda>row. res_id row = rid) (resources d))))),
      d\<lparr>resources :=
          map (\<lambda>row. if res_id row = rid then row\<lparr>res_build_id := Some buildID\<rparr> else row)
            (resources d)\<rparr>)"

text \<open>
  Modelled from the spec: \<^verbatim>\<open>build.Reload\<close> is defined outside the excerpt; the spec
  has \<^verbatim>\<open>CreateBuild\<close> reload the build last. It reads the row of the build's id
  again, and a missing row is not an error.
\<close>

definition sql_reload_build :: "builds_row \<Rightarrow> db \<Rightarrow> error + builds_row \<times> bool" where
  "sql_reload_build build d =
     (case filter (\<lambda>b. b_id b = b_id build) (builds d) of
        [] \<Rightarrow> Inr (build, False)
      | row # _ \<Rightarrow> Inr (row, True))"

text \<open>
  \<^verbatim>\<open>resourcesQuery\<close> with \<^verbatim>\<open>WHERE r.id = $1\<close>, read with \<^verbatim>\<open>QueryRow\<close>: the
  inner joins with \<open>pipelines\<close> and \<open>teams\<close>, the left join with
  \<open>resource_pins\<close>, and \<^verbatim>\<open>r.active\<close>.
\<close>

definition sql_resource :: "int \<Rightarrow> db \<Rightarrow> error + resource_scan" where
  "sql_resource rid d =
     (case [\<lparr>sc_id = res_id row, sc_name = res_name row, sc_pipeline_id = res_pipeline_id row,
              sc_team_id = t, sc_rcID = res_resource_config_id row,
              sc_rcScopeID = res_resource_config_scope_id row,
              sc_pinnedVersion = map_option rp_version (resource_pins d (res_id row)),
              sc_pinComment = map_option rp_comment_text (resource_pins d (res_id row)),
              sc_pinnedThroughConfig = map_option rp_config (resource_pins d (res_id row))\<rparr>.
            row \<leftarrow> resources d, res_active row, res_id row = rid,
            p \<leftarrow> pipelines d, fst p = res_pipeline_id row,
            t \<leftarrow> teams d, t = snd p] of
        [] \<Rightarrow> Inl ErrNoRows
      | scanned # _ \<Rightarrow> Inr scanned)"

text \<open>
  \<^verbatim>\<open>version @> $filter\<close>, where the filter is an object of strings: the version
  is an object that has every member of the filter.
\<close>

fun contains :: "json \<Rightarrow> version \<Rightarrow> bool" where
  "contains (JObj members) filterJSON = list_all (\<lambda>(k, x). map_of members k = Some (JStr x)) filterJSON"
| "contains _ filterJSON = False"

text \<open>
  The query shared by the three pages of \<^verbatim>\<open>Versions\<close>:
  \<^verbatim>\<open>SELECT v.id, v.version, v.metadata, v.check_order, NOT EXISTS (SELECT 1 FROM
  resource_disabled_versions d WHERE v.version_md5 = d.version_md5 AND
  r.resource_config_scope_id = v.resource_config_scope_id AND r.id = d.resource_id)
  FROM resource_config_versions v, resources r
  WHERE r.id = $1 AND r.resource_config_scope_id = v.resource_config_scope_id\<close>
  with \<^verbatim>\<open>AND version @> $filter\<close>.
\<close>

definition sql_versions :: "int \<Rightarrow> version \<Rightarrow> db \<Rightarrow> version_scan list" where
  "sql_versions rid filterJSON d =
     [\<lparr>vs_id = v_id v, vs_version = v_version v, vs_metadata = v_metadata v,
       vs_check_order = v_check_order v,
       vs_enabled = ((res_id row, v_version_md5 v) \<notin> set (resource_disabled_versions d))\<rparr>.
      v \<leftarrow> resource_config_versions d, row \<leftarrow> resources d,
      res_id row = rid, res_resource_config_scope_id row = Some (v_resource_config_scope_id v),
      contains (v_version v) filterJSON]"

text \<open>\<^verbatim>\<open>LIMIT n\<close>: a negative \<open>n\<close> is an error.\<close>

definition sql_limit :: "int \<Rightarrow> 'a list \<Rightarrow> error + 'a list" where
  "sql_limit n rows =
     (if n < 0 then Inl (ErrDriver ''LIMIT must not be negative'') else Inr (take (nat n) rows))"

text \<open>\<^verbatim>\<open>(SELECT check_order FROM resource_config_versions WHERE id = $2)\<close>\<close>

definition sql_cursor_check_order :: "int \<Rightarrow> db \<Rightarrow> error + int option" where
  "sql_cursor_check_order rcvID d =
     scalar [v_check_order v. v \<leftarrow> resource_config_versions d, v_id v = rcvID]"

text \<open>
  The subquery \<open>sub\<close> of the page from a cursor:
  \<^verbatim>\<open>... AND v.check_order >= (cursor) ORDER BY v.check_order ASC LIMIT $3\<close>.
  A comparison with a null cursor holds for no row.
\<close>

definition sql_versions_from_sub :: "int \<Rightarrow> int \<Rightarrow> int \<Rightarrow> version \<Rightarrow> db \<Rightarrow> error + version_scan list" where
  "sql_versions_from_sub rid from limit filterJSON d =
     (case sql_cursor_check_order from d of
        Inl err \<Rightarrow> Inl err
      | Inr cursor \<Rightarrow>
          sql_limit limit
            (sort_key vs_check_order
               (filter (\<lambda>row. case cursor of None \<Rightarrow> False | Some c \<Rightarrow> vs_check_order row \<ge> c)
                  (sql_versions rid filterJSON d))))"

text \<open>\<^verbatim>\<open>SELECT sub.* FROM (...) sub ORDER BY sub.check_order DESC\<close>\<close>

definition sql_versions_from :: "int \<Rightarrow> int \<Rightarrow> int \<Rightarrow> version \<Rightarrow> db \<Rightarrow> error + version_scan list" where
  "sql_versions_from rid from limit filterJSON d =
     (case sql_versions_from_sub rid from limit filterJSON d of
        Inl err \<Rightarrow> Inl err
      | Inr sub \<Rightarrow> Inr (sort_key (\<lambda>row. - vs_check_order row) sub))"

text \<open>\<^verbatim>\<open>... AND v.check_order <= (cursor) ORDER BY v.check_order DESC LIMIT $3\<close>\<close>

definition sql_versions_to :: "int \<Rightarrow> int \<Rightarrow> int \<Rightarrow> version \<Rightarrow> db \<Rightarrow> error + version_scan list" where
  "sql_versions_to rid to limit filterJSON d =
     (case sql_cursor_check_order to d of
        Inl err \<Rightarrow> Inl err
      | Inr cursor \<Rightarrow>
          sql_limit limit
            (sort_key (\<lambda>row. - vs_check_order row)
               (filter (\<lambda>row. case cursor of None \<Rightarrow> False | Some c \<Rightarrow> vs_check_order row \<le> c)
                  (sql_versions rid filterJSON d))))"

text \<open>\<^verbatim>\<open>... ORDER BY v.check_order DESC LIMIT $2\<close>\<close>

definition sql_versions_latest :: "int \<Rightarrow> int \<Rightarrow> version \<Rightarrow> db \<Rightarrow> error + version_scan list" where
  "sql_versions_latest rid limit filterJSON d =
     sql_limit limit (sort_key (\<lambda>row. - vs_check_order row) (sql_versions rid filterJSON d))"

text \<open>
  \<^verbatim>\<open>SELECT v.id FROM resource_config_versions v, resources r
  WHERE v.check_order < $2 AND r.id = $1 AND v.resource_config_scope_id = r.resource_config_scope_id
  ORDER BY v.check_order DESC LIMIT 1\<close>, read with \<^verbatim>\<open>QueryRow\<close>, and its mirror image
  for the next newer version.
\<close>

definition sql_older_version :: "int \<Rightarrow> int \<Rightarrow> db \<Rightarrow> error + int" where
  "sql_older_version rid checkOrder d =
     (case sort_key (\<lambda>v. - v_check_order v)
             [v. v \<leftarrow> resource_config_versions d, row \<leftarrow> resources d,
              v_check_order v < checkOrder, res_id row = rid,
              res_resource_config_scope_id row = Some (v_resource_config_scope_id v)] of
        [] \<Rightarrow> Inl ErrNoRows
      | v # _ \<Rightarrow> Inr (v_id v))"

definition sql_newer_version :: "int \<Rightarrow> int \<Rightarrow> db \<Rightarrow> error + int" where
  "sql_newer_version rid checkOrder d =
     (case sort_key v_check_order
             [v. v \<leftarrow> resource_config_versions d, row \<leftarrow> resources d,
              v_check_order v > checkOrder, res_id row = rid,
              res_resource_config_scope_id row = Some (v_resource_config_scope_id v)] of
        [] \<Rightarrow> Inl ErrNoRows
      | v # _ \<Rightarrow> Inr (v_id v))"

text \<open>
  The connection to this database. \<^verbatim>\<open>now()\<close> is the clock, and each
  \<^verbatim>\<open>UPDATE jobs\<close> is written to the log when it is issued.
\<close>

definition pg_execRequestSchedule :: "int \<Rightarrow> world \<Rightarrow> (error + sql_result) \<times> world" where
  "pg_execRequestSchedule jid w =
     (case run (sql_request_schedule (clock w) jid) w of
        (res, w) \<Rightarrow> (res, w\<lparr>schedule_log := schedule_log w @ [jid]\<rparr>))"

definition pg :: "(version option \<Rightarrow> string) \<Rightarrow> world conn" where
  "pg md5 =
     \<lparr>Begin = pg_Begin,
      Commit = pg_Commit,
      Rollback = pg_Rollback,
      Notify = pg_Notify,
      queryPinnedThroughConfig = (\<lambda>rid. ask (sql_pinned_through_config rid)),
      execUpsertPin = (\<lambda>rid rcvID. run (sql_upsert_pin rid rcvID)),
      execDeletePin = (\<lambda>rid. run (sql_delete_pin rid)),
      execDeleteDisabledVersion = (\<lambda>rid rcvID. run (sql_delete_disabled_version rid rcvID)),
      execInsertDisabledVersion = (\<lambda>rid rcvID. run (sql_insert_disabled_version rid rcvID)),
      queryJobsUsingResource = (\<lambda>rid. ask (sql_jobs_using_resource rid)),
      execRequestSchedule = pg_execRequestSchedule,
      execSetResourceConfigScope =
        (\<lambda>rid rcID scopeID. run (sql_set_resource_config_scope rid rcID scopeID)),
      execUpdateMetadata =
        (\<lambda>scopeID version metadata. run (sql_update_metadata md5 scopeID version metadata)),
      queryBuildCompleted = (\<lambda>rid. ask (sql_build_completed rid)),
      createStartedBuild = (\<lambda>args. run (sql_create_started_build args)),
      execSetResourceBuild = (\<lambda>rid buildID. run (sql_set_resource_build rid buildID)),
      reloadBuild = (\<lambda>build. ask (sql_reload_build build)),
      queryResource = (\<lambda>rid. ask (sql_resource rid)),
      queryVersionsFrom = (\<lambda>rid from limit filterJSON. ask (sql_versions_from rid from limit filterJSON)),
      queryVersionsTo = (\<lambda>rid to limit filterJSON. ask (sql_versions_to rid to limit filterJSON)),
      queryVersionsLatest = (\<lambda>rid limit filterJSON. ask (sql_versions_latest rid limit filterJSON)),
      queryOlderVersion = (\<lambda>rid checkOrder. ask (sql_older_version rid checkOrder)),
      queryNewerVersion = (\<lambda>rid checkOrder. ask (sql_newer_version rid checkOrder))\<rparr>"

section \<open>Example states\<close>

text \<open>
  A small pipeline: resource 1 on scope 10 with three versions, used by the jobs
  4 and 6 (job 4 through two inputs), and resource 2 used by job 5. The second
  version is disabled for resource 1.
\<close>

definition example_md5 :: "version option \<Rightarrow> string" where
  "example_md5 v = (case v of None \<Rightarrow> ''null'' | Some kvs \<Rightarrow> concat (map snd kvs))"

definition example_db :: db where
  "example_db =
     \<lparr>builds = [],
      resources =
        [\<lparr>res_id = 1, res_name = ''repo'', res_pipeline_id = 1, res_active = True,
          res_resource_config_id = Some 100, res_resource_config_scope_id = Some 10,
          res_build_id = None\<rparr>,
         \<lparr>res_id = 2, res_name = ''image'', res_pipeline_id = 1, res_active = True,
          res_resource_config_id = None, res_resource_config_scope_id = None,
          res_build_id = None\<rparr>],
      pipelines = [(1, 1)],
      teams = [1],
      resource_config_versions =
        [\<lparr>v_id = 1, v_resource_config_scope_id = 10, v_version = JObj [(''ref'', JStr ''a'')],
          v_version_md5 = ''a'', v_metadata = None, v_check_order = 1\<rparr>,
         \<lparr>v_id = 2, v_resource_config_scope_id = 10, v_version = JObj [(''ref'', JStr ''b'')],
          v_version_md5 = ''b'', v_metadata = None, v_check_order = 2\<rparr>,
         \<lparr>v_id = 3, v_resource_config_scope_id = 10, v_version = JObj [(''ref'', JStr ''c'')],
          v_version_md5 = ''c'', v_metadata = None, v_check_order = 3\<rparr>],
      resource_pins = Map.empty,
      resource_disabled_versions = [(1, ''b'')],
      job_inputs = [(4, 1), (6, 1), (5, 2), (4, 1)],
      jobs =
        [\<lparr>j_id = 4, j_name = ''unit'', j_schedule_requested = 0\<rparr>,
         \<lparr>j_id = 5, j_name = ''publish'', j_schedule_requested = 0\<rparr>,
         \<lparr>j_id = 6, j_name = ''deploy'', j_schedule_requested = 0\<rparr>]\<rparr>"

definition example_world :: world where
  "example_world =
     \<lparr>committed = example_db, open_tx = None, clock = 7, notifications = [],
      schedule_log = []\<rparr>"

definition example_resource :: resource where
  "example_resource =
     \<lparr>r_id = 1, r_name = ''repo'', r_teamID = 1, r_pipelineID = 1,
      r_configPinnedVersion = None, r_apiPinnedVersion = None, r_pinComment = [],
      r_resourceConfigID = 100, r_resourceConfigScopeID = 10\<rparr>"

section \<open>What the properties speak about\<close>

text \<open>
  The jobs table after \<open>schedule_requested\<close> was set to \<open>now\<close> for the jobs
  of the list.
\<close>

definition bump :: "nat \<Rightarrow> int list \<Rightarrow> jobs_row list \<Rightarrow> jobs_row list" where
  "bump now js rows = map (\<lambda>j. if j_id j \<in> set js then j\<lparr>j_schedule_requested := now\<rparr> else j) rows"

text \<open>The jobs that have a \<open>job_inputs\<close> row referencing the resource.\<close>

definition jobs_with_input :: "int \<Rightarrow> db \<Rightarrow> int set" where
  "jobs_with_input rid d = fst ` {ji \<in> set (job_inputs d). snd ji = rid}"

text \<open>The example with resource 1 pinned to its first version.\<close>

definition example_pinned_world :: "bool \<Rightarrow> world" where
  "example_pinned_world config =
     example_world\<lparr>committed := example_db\<lparr>resource_pins :=
        [1 \<mapsto> \<lparr>rp_version = JObj [(''ref'', JStr ''a'')], rp_comment_text = ''hold'',
                rp_config = config\<rparr>]\<rparr>\<rparr>"

definition example_scope :: ResourceConfigScope where
  "example_scope = \<lparr>scope_ID = 11, scope_ResourceConfig_ID = 100\<rparr>"

text \<open>
  The example after a first check build of resource 1 completed and a second one
  started.
\<close>

definition example_builds_world :: world where
  "example_builds_world =
     example_world\<lparr>committed := example_db\<lparr>builds :=
       [\<lparr>b_id = 1, b_name = ''check'', b_status = ''succeeded'', b_job_id = None,
         b_resource_id = Some 1, b_completed = True, b_manually_triggered = False\<rparr>,
        \<lparr>b_id = 2, b_name = ''check'', b_status = ''started'', b_job_id = None,
         b_resource_id = Some 1, b_completed = False, b_manually_triggered = False\<rparr>]\<rparr>\<rparr>"

section \<open>A connection that records its calls\<close>

text \<open>
  The calls of \<^verbatim>\<open>Begin\<close>, \<^verbatim>\<open>Commit\<close>, \<^verbatim>\<open>Rollback\<close>, \<^verbatim>\<open>Notify\<close> and of the
  statements that write, with their arguments. Queries are not recorded.
\<close>

datatype call =
    CallBegin
  | CallCommit
  | CallRollback
  | CallNotify string
  | CallUpsertPin int int
  | CallDeletePin int
  | CallDeleteDisabledVersion int int
  | CallInsertDisabledVersion int int
  | CallRequestSchedule int
  | CallSetResourceConfigScope int int int
  | CallUpdateMetadata int "version option" metadata
  | CallCreateStartedBuild startedBuildArgs
  | CallSetResourceBuild int int

text \<open>A call that is appended to the record once it returns, and one that is not.\<close>

definition recorded :: "call \<Rightarrow> ('s \<Rightarrow> 'a \<times> 's) \<Rightarrow> 's \<times> call list \<Rightarrow> 'a \<times> 's \<times> call list" where
  "recorded ev f st = (case st of (s, calls) \<Rightarrow> (case f s of (x, s') \<Rightarrow> (x, s', calls @ [ev])))"

definition unrecorded :: "('s \<Rightarrow> 'a \<times> 's) \<Rightarrow> 's \<times> call list \<Rightarrow> 'a \<times> 's \<times> call list" where
  "unrecorded f st = (case st of (s, calls) \<Rightarrow> (case f s of (x, s') \<Rightarrow> (x, s', calls)))"

text \<open>
  The connection \<open>c\<close> with a record of the calls made on it, in the order they
  were made. It answers as \<open>c\<close> does.
\<close>

definition traced :: "'s conn \<Rightarrow> ('s \<times> call list) conn" where
  "traced c =
     \<lparr>Begin = recorded CallBegin (Begin c),
      Commit = recorded CallCommit (Commit c),
      Rollback = (\<lambda>st. case st of (s, calls) \<Rightarrow> (Rollback c s, calls @ [CallRollback])),
      Notify = (\<lambda>channel. recorded (CallNotify channel) (Notify c channel)),
      queryPinnedThroughConfig = (\<lambda>rid. unrecorded (queryPinnedThroughConfig c rid)),
      execUpsertPin = (\<lambda>rid rcvID. recorded (CallUpsertPin rid rcvID) (execUpsertPin c rid rcvID)),
      execDeletePin = (\<lambda>rid. recorded (CallDeletePin rid) (execDeletePin c rid)),
      execDeleteDisabledVersion =
        (\<lambda>rid rcvID. recorded (CallDeleteDisabledVersion rid rcvID)
           (execDeleteDisabledVersion c rid rcvID)),
      execInsertDisabledVersion =
        (\<lambda>rid rcvID. recorded (CallInsertDisabledVersion rid rcvID)
           (execInsertDisabledVersion c rid rcvID)),
      queryJobsUsingResource = (\<lambda>rid. unrecorded (queryJobsUsingResource c rid)),
      execRequestSchedule = (\<lambda>jid. recorded (CallRequestSchedule jid) (execRequestSchedule c jid)),
      execSetResourceConfigScope =
        (\<lambda>rid rcID scopeID. recorded (CallSetResourceConfigScope rid rcID scopeID)
           (execSetResourceConfigScope c rid rcID scopeID)),
      execUpdateMetadata =
        (\<lambda>scopeID version metadata. recorded (CallUpdateMetadata scopeID version metadata)
           (execUpdateMetadata c scopeID version metadata)),
      queryBuildCompleted = (\<lambda>rid. unrecorded (queryBuildCompleted c rid)),
      createStartedBuild = (\<lambda>args. recorded (CallCreateStartedBuild args) (createStartedBuild c args)),
      execSetResourceBuild =
        (\<lambda>rid buildID. recorded (CallSetResourceBuild rid buildID) (execSetResourceBuild c rid buildID)),
      reloadBuild = (\<lambda>build. unrecorded (reloadBuild c build)),
      queryResource = (\<lambda>rid. unrecorded (queryResource c rid)),
      queryVersionsFrom =
        (\<lambda>rid from limit filterJSON. unrecorded (queryVersionsFrom c rid from limit filterJSON)),
      queryVersionsTo =
        (\<lambda>rid to limit filterJSON. unrecorded (queryVersionsTo c rid to limit filterJSON)),
      queryVersionsLatest =
        (\<lambda>rid limit filterJSON. unrecorded (queryVersionsLatest c rid limit filterJSON)),
      queryOlderVersion = (\<lambda>rid checkOrder. unrecorded (queryOlderVersion c rid checkOrder)),
      queryNewerVersion = (\<lambda>rid checkOrder. unrecorded (queryNewerVersion c rid checkOrder))\<rparr>"

text \<open>The job ids of the \<^verbatim>\<open>UPDATE jobs SET schedule_requested\<close> calls of a record.\<close>

fun requested :: "call list \<Rightarrow> int list" where
  "requested [] = []"
| "requested (CallRequestSchedule jid # calls) = jid # requested calls"
| "requested (_ # calls) = requested calls"

text \<open>
  A call on the recording connection, started in \<open>w\<close> with an empty record and
  ended in \<open>out\<close>, requested a schedule within its transaction: it began a
  transaction, issued the mutation, then one job update for each job with a
  \<open>job_inputs\<close> row of the resource and no other, in strictly descending order of
  job id, then committed (the deferred rollback comes last); and each of these
  jobs has \<open>schedule_requested = now()\<close> in the committed database.
\<close>

definition scheduled_in_transaction :: "int \<Rightarrow> call \<Rightarrow> world \<Rightarrow> world \<times> call list \<Rightarrow> bool" where
  "scheduled_in_transaction rid mutation w out \<longleftrightarrow>
     snd out = [CallBegin, mutation] @ map CallRequestSchedule (requested (snd out))
                 @ [CallCommit, CallRollback] \<and>
     sorted_wrt (>) (requested (snd out)) \<and>
     set (requested (snd out)) = jobs_with_input rid (committed w) \<and>
     (\<forall>j \<in> set (jobs (committed (fst out))).
        j_id j \<in> jobs_with_input rid (committed w) \<longrightarrow> j_schedule_requested j = clock w)"

section \<open>What the properties of the ledger speak about\<close>

text \<open>
  The rows that the query of \<^verbatim>\<open>Versions\<close> returns for a page and a filter: the
  choice between the three statements that \<^verbatim>\<open>Versions\<close> makes, on the database.
\<close>

definition sql_versions_page :: "int \<Rightarrow> Page \<Rightarrow> version option \<Rightarrow> db \<Rightarrow> error + version_scan list" where
  "sql_versions_page rid page versionFilter d =
     (let filterJSON = (case versionFilter of None \<Rightarrow> [] | Some kvs \<Rightarrow> kvs)
      in case page_From page of
           Some from \<Rightarrow> sql_versions_from rid from (page_Limit page) filterJSON d
         | None \<Rightarrow>
             (case page_To page of
                Some to \<Rightarrow> sql_versions_to rid to (page_Limit page) filterJSON d
              | None \<Rightarrow> sql_versions_latest rid (page_Limit page) filterJSON d))"

text \<open>
  The data model of the ledger: resource ids and version ids are keys, and within
  a scope no two versions have the same check order.
\<close>

definition ledger_invariant :: "db \<Rightarrow> bool" where
  "ledger_invariant d \<longleftrightarrow>
     distinct (map res_id (resources d)) \<and>
     distinct (map v_id (resource_config_versions d)) \<and>
     distinct (map (\<lambda>v. (v_resource_config_scope_id v, v_check_order v))
                 (resource_config_versions d))"

text \<open>The row of the query of \<^verbatim>\<open>Versions\<close> for a version of the table.\<close>

definition version_row :: "db \<Rightarrow> int \<Rightarrow> rcv_row \<Rightarrow> version_scan" where
  "version_row d rid v =
     \<lparr>vs_id = v_id v, vs_version = v_version v, vs_metadata = v_metadata v,
      vs_check_order = v_check_order v,
      vs_enabled = ((rid, v_version_md5 v) \<notin> set (resource_disabled_versions d))\<rparr>"

text \<open>The scope of the resource, if the resource exists and has one.\<close>

definition resource_scope :: "int \<Rightarrow> db \<Rightarrow> int option" where
  "resource_scope rid d =
     (case filter (\<lambda>row. res_id row = rid) (resources d) of
        [] \<Rightarrow> None
      | row # _ \<Rightarrow> res_resource_config_scope_id row)"

text \<open>The version is in the scope of the resource and contains the filter.\<close>

definition in_ledger :: "int \<Rightarrow> version \<Rightarrow> db \<Rightarrow> rcv_row \<Rightarrow> bool" where
  "in_ledger rid filterJSON d v \<longleftrightarrow>
     resource_scope rid d = Some (v_resource_config_scope_id v)
     \<and> contains (v_version v) filterJSON"

text \<open>The filter object that \<^verbatim>\<open>Versions\<close> sends for a \<open>versionFilter\<close>.\<close>

definition filter_of :: "version option \<Rightarrow> version" where
  "filter_of versionFilter = (case versionFilter of None \<Rightarrow> [] | Some kvs \<Rightarrow> kvs)"

text \<open>The second version of the example, and a page of two versions.\<close>

definition example_version :: rcv_row where
  "example_version =
     \<lparr>v_id = 2, v_resource_config_scope_id = 10, v_version = JObj [(''ref'', JStr ''b'')],
      v_version_md5 = ''b'', v_metadata = None, v_check_order = 2\<rparr>"

definition example_page :: "int option \<Rightarrow> int option \<Rightarrow> Page" where
  "example_page cursorFrom cursorTo = \<lparr>page_From = cursorFrom, page_To = cursorTo, page_Limit = 2\<rparr>"

section \<open>Properties of the resource store\<close>

lemma pg_fields [simp]:
  "Begin (pg m) = pg_Begin"
  "Commit (pg m) = pg_Commit"
  "Rollback (pg m) = pg_Rollback"
  "Notify (pg m) = pg_Notify"
  "queryPinnedThroughConfig (pg m) = (\<lambda>rid. ask (sql_pinned_through_config rid))"
  "execUpsertPin (pg m) = (\<lambda>rid rcvID. run (sql_upsert_pin rid rcvID))"
  "execDeletePin (pg m) = (\<lambda>rid. run (sql_delete_pin rid))"
  "execDeleteDisabledVersion (pg m) = (\<lambda>rid rcvID. run (sql_delete_disabled_version rid rcvID))"
  "execInsertDisabledVersion (pg m) = (\<lambda>rid rcvID. run (sql_insert_disabled_version rid rcvID))"
  "queryJobsUsingResource (pg m) = (\<lambda>rid. ask (sql_jobs_using_resource rid))"
  "execRequestSchedule (pg m) = pg_execRequestSchedule"
  "execSetResourceConfigScope (pg m) =
     (\<lambda>rid rcID scopeID. run (sql_set_resource_config_scope rid rcID scopeID))"
  "execUpdateMetadata (pg m) =
     (\<lambda>scopeID version metadata. run (sql_update_metadata m scopeID version metadata))"
  "queryBuildCompleted (pg m) = (\<lambda>rid. ask (sql_build_completed rid))"
  "createStartedBuild (pg m) = (\<lambda>args. run (sql_create_started_build args))"
  "execSetResourceBuild (pg m) = (\<lambda>rid buildID. run (sql_set_resource_build rid buildID))"
  "reloadBuild (pg m) = (\<lambda>build. ask (sql_reload_build build))"
  "queryResource (pg m) = (\<lambda>rid. ask (sql_resource rid))"
  "queryVersionsFrom (pg m) =
     (\<lambda>rid from limit filterJSON. ask (sql_versions_from rid from limit filterJSON))"
  "queryVersionsTo (pg m) = (\<lambda>rid to limit filterJSON. ask (sql_versions_to rid to limit filterJSON))"
  "queryVersionsLatest (pg m) = (\<lambda>rid limit filterJSON. ask (sql_versions_latest rid limit filterJSON))"
  "queryOlderVersion (pg m) = (\<lambda>rid checkOrder. ask (sql_older_version rid checkOrder))"
  "queryNewerVersion (pg m) = (\<lambda>rid checkOrder. ask (sql_newer_version rid checkOrder))"
  by (simp_all add: pg_def)

subsection \<open>The schedule requests on the database\<close>

lemma bump_Nil [simp]: "bump now [] rows = rows"
  by (simp add: bump_def)

lemma bump_Cons:
  "bump now js (map (\<lambda>j. if j_id j = a then j\<lparr>j_schedule_requested := now\<rparr> else j) rows)
     = bump now (a # js) rows"
  by (simp add: bump_def)

lemma requestScheduleLoop_pg:
  "open_tx w = Some d \<Longrightarrow>
   requestScheduleLoop (pg m) js w =
     (None, w\<lparr>open_tx := Some (d\<lparr>jobs := bump (clock w) js (jobs d)\<rparr>),
              schedule_log := schedule_log w @ js\<rparr>)"
proof (induction js arbitrary: w d)
  case Nil
  then show ?case by simp
next
  case (Cons a js)
  let ?d1 = "d\<lparr>jobs := map (\<lambda>j. if j_id j = a then j\<lparr>j_schedule_requested := clock w\<rparr> else j) (jobs d)\<rparr>"
  let ?w1 = "w\<lparr>open_tx := Some ?d1, schedule_log := schedule_log w @ [a]\<rparr>"
  have step: "pg_execRequestSchedule a w
      = (Inr (Inr (int (length (filter (\<lambda>j. j_id j = a) (jobs d))))), ?w1)"
    using Cons.prems by (simp add: pg_execRequestSchedule_def run_def sql_request_schedule_def)
  have "open_tx ?w1 = Some ?d1" by simp
  from Cons.IH [OF this] show ?case
    by (simp add: step bump_Cons)
qed

lemma requestSchedule_pg:
  "open_tx w = Some d \<Longrightarrow>
   requestScheduleForJobsUsingResource (pg m) rid w =
     (None, w\<lparr>open_tx := Some (d\<lparr>jobs := bump (clock w)
                  (rev (sort (remdups [fst ji. ji \<leftarrow> job_inputs d, snd ji = rid]))) (jobs d)\<rparr>),
              schedule_log := schedule_log w
                  @ rev (sort (remdups [fst ji. ji \<leftarrow> job_inputs d, snd ji = rid]))\<rparr>)"
  by (simp add: requestScheduleForJobsUsingResource_def ask_def sql_jobs_using_resource_def
      requestScheduleLoop_pg)

subsection \<open>Exactly one affected row\<close>











subsection \<open>UpdateMetadata\<close>

text \<open>
  C8 says that \<^verbatim>\<open>UpdateMetadata\<close> returns false, with no error, when no row
  matched. The code tests the error of \<^verbatim>\<open>Exec\<close> against \<^verbatim>\<open>sql.ErrNoRows\<close>, which
  an update that matches nothing does not return: in the example database no
  version of scope 10 has the hash of \<open>{ref: z}\<close>, no row is written, and the
  method returns true.
\<close>

theorem UpdateMetadata_no_match_returns_true:
  "UpdateMetadata (pg example_md5) example_resource (Some [(''ref'', ''z'')]) [(''author'', ''x'')]
     example_world = ((True, None), example_world)"
  by (simp add: UpdateMetadata_def run_def sql_update_metadata_def example_world_def example_db_def
      example_resource_def example_md5_def)

lemma sorted_desc: "sorted_wrt (>) (rev (sort (remdups (xs :: int list))))"
proof -
  have "distinct (sort (remdups xs))" by simp
  moreover have "sorted (sort (remdups xs))" by simp
  ultimately have "sorted_wrt (<) (sort (remdups xs))"
    by (simp add: strict_sorted_iff)
  then show ?thesis
    by (simp add: sorted_wrt_rev)
qed

subsection \<open>Schedule requests within the transaction\<close>

lemma traced_fields [simp]:
  "Begin (traced c) = recorded CallBegin (Begin c)"
  "Commit (traced c) = recorded CallCommit (Commit c)"
  "Rollback (traced c) = (\<lambda>st. case st of (s, calls) \<Rightarrow> (Rollback c s, calls @ [CallRollback]))"
  "queryPinnedThroughConfig (traced c) = (\<lambda>rid. unrecorded (queryPinnedThroughConfig c rid))"
  "execUpsertPin (traced c) =
     (\<lambda>rid rcvID. recorded (CallUpsertPin rid rcvID) (execUpsertPin c rid rcvID))"
  "execDeletePin (traced c) = (\<lambda>rid. recorded (CallDeletePin rid) (execDeletePin c rid))"
  "execDeleteDisabledVersion (traced c) =
     (\<lambda>rid rcvID. recorded (CallDeleteDisabledVersion rid rcvID)
        (execDeleteDisabledVersion c rid rcvID))"
  "execInsertDisabledVersion (traced c) =
     (\<lambda>rid rcvID. recorded (CallInsertDisabledVersion rid rcvID)
        (execInsertDisabledVersion c rid rcvID))"
  "queryJobsUsingResource (traced c) = (\<lambda>rid. unrecorded (queryJobsUsingResource c rid))"
  "execRequestSchedule (traced c) =
     (\<lambda>jid. recorded (CallRequestSchedule jid) (execRequestSchedule c jid))"
  "execSetResourceConfigScope (traced c) =
     (\<lambda>rid rcID scopeID. recorded (CallSetResourceConfigScope rid rcID scopeID)
        (execSetResourceConfigScope c rid rcID scopeID))"
  by (simp_all add: traced_def)

lemma requested_map [simp]: "requested (map CallRequestSchedule js) = js"
  by (induction js) simp_all

lemma requested_append [simp]: "requested (xs @ ys) = requested xs @ requested ys"
  by (induction xs rule: requested.induct) simp_all

lemma requestScheduleLoop_traced:
  "open_tx w = Some d \<Longrightarrow>
   requestScheduleLoop (traced (pg m)) js (w, calls) =
     (None, w\<lparr>open_tx := Some (d\<lparr>jobs := bump (clock w) js (jobs d)\<rparr>),
              schedule_log := schedule_log w @ js\<rparr>,
      calls @ map CallRequestSchedule js)"
proof (induction js arbitrary: w d calls)
  case Nil
  then show ?case by simp
next
  case (Cons a js)
  let ?d1 = "d\<lparr>jobs := map (\<lambda>j. if j_id j = a then j\<lparr>j_schedule_requested := clock w\<rparr> else j) (jobs d)\<rparr>"
  let ?w1 = "w\<lparr>open_tx := Some ?d1, schedule_log := schedule_log w @ [a]\<rparr>"
  have step: "pg_execRequestSchedule a w
      = (Inr (Inr (int (length (filter (\<lambda>j. j_id j = a) (jobs d))))), ?w1)"
    using Cons.prems by (simp add: pg_execRequestSchedule_def run_def sql_request_schedule_def)
  have "open_tx ?w1 = Some ?d1" by simp
  from Cons.IH [OF this] show ?case
    by (simp add: step bump_Cons recorded_def)
qed

lemma requestSchedule_traced:
  "open_tx w = Some d \<Longrightarrow>
   requestScheduleForJobsUsingResource (traced (pg m)) rid (w, calls) =
     (None, w\<lparr>open_tx := Some (d\<lparr>jobs := bump (clock w)
                  (rev (sort (remdups [fst ji. ji \<leftarrow> job_inputs d, snd ji = rid]))) (jobs d)\<rparr>),
              schedule_log := schedule_log w
                  @ rev (sort (remdups [fst ji. ji \<leftarrow> job_inputs d, snd ji = rid]))\<rparr>,
      calls @ map CallRequestSchedule
                (rev (sort (remdups [fst ji. ji \<leftarrow> job_inputs d, snd ji = rid]))))"
  by (simp add: requestScheduleForJobsUsingResource_def ask_def sql_jobs_using_resource_def
      requestScheduleLoop_traced unrecorded_def)

lemma scheduled_in_transaction_after:
  assumes "job_inputs d1 = job_inputs (committed w)" and "jobs d1 = jobs (committed w)"
    and "out = (w\<lparr>committed := d1\<lparr>jobs := bump (clock w)
                  (rev (sort (remdups [fst ji. ji \<leftarrow> job_inputs d1, snd ji = rid]))) (jobs d1)\<rparr>,
              schedule_log := schedule_log w
                  @ rev (sort (remdups [fst ji. ji \<leftarrow> job_inputs d1, snd ji = rid]))\<rparr>,
          [CallBegin, mutation] @ map CallRequestSchedule
             (rev (sort (remdups [fst ji. ji \<leftarrow> job_inputs d1, snd ji = rid])))
            @ [CallCommit, CallRollback])"
    and "requested [mutation] = []"
  shows "scheduled_in_transaction rid mutation w out"
proof -
  define js where "js = rev (sort (remdups [fst ji. ji \<leftarrow> job_inputs d1, snd ji = rid]))"
  have calls: "snd out = [CallBegin, mutation] @ map CallRequestSchedule js @ [CallCommit, CallRollback]"
    using assms(3) by (simp add: js_def)
  have "requested (snd out) = requested [CallBegin] @ requested [mutation]
      @ requested (map CallRequestSchedule js) @ requested [CallCommit, CallRollback]"
    unfolding calls by (simp only: requested_append [symmetric] append.simps)
  then have r: "requested (snd out) = js"
    using assms(4) by simp
  have s: "sorted_wrt (>) js"
    by (simp add: js_def sorted_desc)
  have m: "set js = jobs_with_input rid (committed w)"
    using assms(1) by (auto simp: js_def jobs_with_input_def)
  have j: "\<forall>j \<in> set (jobs (committed (fst out))).
        j_id j \<in> jobs_with_input rid (committed w) \<longrightarrow> j_schedule_requested j = clock w"
    using assms(1,2,3) by (auto simp: jobs_with_input_def bump_def)
  show ?thesis
    unfolding scheduled_in_transaction_def r using calls s m j by simp
qed

lemma UnpinVersion_traced_success:
  assumes "fst (UnpinVersion (traced (pg m)) r (w, [])) = None"
  shows "scheduled_in_transaction (r_id r) (CallDeletePin (r_id r)) w
           (snd (UnpinVersion (traced (pg m)) r (w, [])))"
proof -
  from assms have o: "open_tx w = None"
    by (auto simp: UnpinVersion_def pg_Begin_def recorded_def split: option.splits)
  from assms o obtain p where p: "resource_pins (committed w) (r_id r) = Some p"
    by (auto simp: UnpinVersion_def pg_Begin_def deferRollback_def run_def sql_delete_pin_def
        recorded_def split: option.splits)
  let ?d1 = "(committed w)\<lparr>resource_pins := (resource_pins (committed w))(r_id r := None)\<rparr>"
  have "snd (UnpinVersion (traced (pg m)) r (w, [])) =
      (w\<lparr>committed := ?d1\<lparr>jobs := bump (clock w)
                  (rev (sort (remdups [fst ji. ji \<leftarrow> job_inputs ?d1, snd ji = r_id r]))) (jobs ?d1)\<rparr>,
              schedule_log := schedule_log w
                  @ rev (sort (remdups [fst ji. ji \<leftarrow> job_inputs ?d1, snd ji = r_id r]))\<rparr>,
       [CallBegin, CallDeletePin (r_id r)] @ map CallRequestSchedule
             (rev (sort (remdups [fst ji. ji \<leftarrow> job_inputs ?d1, snd ji = r_id r])))
            @ [CallCommit, CallRollback])"
    using o p
    by (simp add: UnpinVersion_def pg_Begin_def deferRollback_def run_def sql_delete_pin_def
        requestSchedule_traced pg_Commit_def pg_Rollback_def recorded_def)
  then show ?thesis
    by (intro scheduled_in_transaction_after [where ?d1.0 = ?d1]) simp_all
qed

lemma PinVersion_traced_success:
  assumes "fst (PinVersion (traced (pg m)) r rcvID (w, [])) = (True, None)"
  shows "scheduled_in_transaction (r_id r) (CallUpsertPin (r_id r) rcvID) w
           (snd (PinVersion (traced (pg m)) r rcvID (w, [])))"
proof -
  from assms have o: "open_tx w = None"
    by (auto simp: PinVersion_def pg_Begin_def recorded_def split: option.splits)
  from assms o have c: "sql_pinned_through_config (r_id r) (committed w) = Inr False"
    by (auto simp: PinVersion_def pg_Begin_def deferRollback_def ask_def recorded_def
        unrecorded_def sql_pinned_through_config_def split: option.splits if_splits)
  from assms o c obtain ver where
    v: "scalar [v_version v. v \<leftarrow> resource_config_versions (committed w), v_id v = rcvID]
          = Inr (Some ver)"
    by (auto simp: PinVersion_def pg_Begin_def deferRollback_def ask_def run_def recorded_def
        unrecorded_def sql_upsert_pin_def split: option.splits sum.splits if_splits)
  define d1 where "d1 = (committed w)\<lparr>resource_pins := (resource_pins (committed w))(r_id r \<mapsto>
               (case resource_pins (committed w) (r_id r) of
                  None \<Rightarrow> \<lparr>rp_version = ver, rp_comment_text = [], rp_config = False\<rparr>
                | Some p \<Rightarrow> p\<lparr>rp_version := ver\<rparr>))\<rparr>"
  have u: "sql_upsert_pin (r_id r) rcvID (committed w) = (Inr (Inr 1), d1)"
    by (simp add: sql_upsert_pin_def v d1_def)
  have "snd (PinVersion (traced (pg m)) r rcvID (w, [])) =
      (w\<lparr>committed := d1\<lparr>jobs := bump (clock w)
                  (rev (sort (remdups [fst ji. ji \<leftarrow> job_inputs d1, snd ji = r_id r]))) (jobs d1)\<rparr>,
              schedule_log := schedule_log w
                  @ rev (sort (remdups [fst ji. ji \<leftarrow> job_inputs d1, snd ji = r_id r]))\<rparr>,
       [CallBegin, CallUpsertPin (r_id r) rcvID] @ map CallRequestSchedule
             (rev (sort (remdups [fst ji. ji \<leftarrow> job_inputs d1, snd ji = r_id r])))
            @ [CallCommit, CallRollback])"
    using o c u
    by (simp add: PinVersion_def pg_Begin_def deferRollback_def ask_def run_def recorded_def
        unrecorded_def requestSchedule_traced pg_Commit_def pg_Rollback_def)
  then show ?thesis
    by (intro scheduled_in_transaction_after [where ?d1.0 = d1]) (simp_all add: d1_def)
qed

lemma toggleVersion_traced_success:
  assumes "fst (toggleVersion (traced (pg m)) r rcvID enable (w, [])) = None"
  shows "scheduled_in_transaction (r_id r)
           (if enable then CallDeleteDisabledVersion (r_id r) rcvID
            else CallInsertDisabledVersion (r_id r) rcvID) w
           (snd (toggleVersion (traced (pg m)) r rcvID enable (w, [])))"
proof -
  from assms have o: "open_tx w = None"
    by (auto simp: toggleVersion_def pg_Begin_def recorded_def split: option.splits)
  define stmt where "stmt = (if enable then sql_delete_disabled_version (r_id r) rcvID
                             else sql_insert_disabled_version (r_id r) rcvID)"
  define mutation where "mutation = (if enable then CallDeleteDisabledVersion (r_id r) rcvID
            else CallInsertDisabledVersion (r_id r) rcvID)"
  obtain res d1 where e: "stmt (committed w) = (res, d1)"
    by (cases "stmt (committed w)")
  have same: "job_inputs d1 = job_inputs (committed w)" "jobs d1 = jobs (committed w)"
    using e
    by (auto simp: stmt_def sql_delete_disabled_version_def sql_insert_disabled_version_def Let_def
        split: if_splits sum.splits option.splits)
  have t: "toggleVersion (traced (pg m)) r rcvID enable (w, []) =
      deferRollback (traced (pg m))
        (case (res, w\<lparr>open_tx := Some d1\<rparr>, [CallBegin, mutation]) of
           (Inl err, s) \<Rightarrow> (Some err, s)
         | (Inr (Inl err), s) \<Rightarrow> (Some err, s)
         | (Inr (Inr rowsAffected), s) \<Rightarrow>
             if rowsAffected \<noteq> 1 then (Some (NonOneRowAffectedError rowsAffected), s)
             else
               (case requestScheduleForJobsUsingResource (traced (pg m)) (r_id r) s of
                  (Some err, s) \<Rightarrow> (Some err, s)
                | (None, s) \<Rightarrow> Commit (traced (pg m)) s))"
    using o e
    by (cases enable)
      (simp_all add: toggleVersion_def pg_Begin_def run_def stmt_def mutation_def recorded_def)
  from assms have r1: "res = Inr (Inr 1)"
    unfolding t by (auto simp: deferRollback_def split: sum.splits if_splits)
  have "snd (toggleVersion (traced (pg m)) r rcvID enable (w, [])) =
      (w\<lparr>committed := d1\<lparr>jobs := bump (clock w)
                  (rev (sort (remdups [fst ji. ji \<leftarrow> job_inputs d1, snd ji = r_id r]))) (jobs d1)\<rparr>,
              schedule_log := schedule_log w
                  @ rev (sort (remdups [fst ji. ji \<leftarrow> job_inputs d1, snd ji = r_id r]))\<rparr>,
       [CallBegin, mutation] @ map CallRequestSchedule
             (rev (sort (remdups [fst ji. ji \<leftarrow> job_inputs d1, snd ji = r_id r])))
            @ [CallCommit, CallRollback])"
    unfolding t r1 using o
    by (simp add: deferRollback_def requestSchedule_traced pg_Commit_def pg_Rollback_def
        recorded_def)
  then show ?thesis
    unfolding mutation_def [symmetric] using same
    by (intro scheduled_in_transaction_after [where ?d1.0 = d1]) (simp_all add: mutation_def)
qed

lemma SetResourceConfigScope_traced_success:
  assumes "fst (SetResourceConfigScope (traced (pg m)) r scope (w, [])) = None"
    and "\<exists>row \<in> set (resources (committed w)).
           scope_differs (r_id r) (scope_ResourceConfig_ID scope) (scope_ID scope) row"
  shows "scheduled_in_transaction (r_id r)
           (CallSetResourceConfigScope (r_id r) (scope_ResourceConfig_ID scope) (scope_ID scope)) w
           (snd (SetResourceConfigScope (traced (pg m)) r scope (w, [])))"
proof -
  from assms have o: "open_tx w = None"
    by (auto simp: SetResourceConfigScope_def pg_Begin_def recorded_def split: option.splits)
  let ?hit = "scope_differs (r_id r) (scope_ResourceConfig_ID scope) (scope_ID scope)"
  define d1 where "d1 = (committed w)\<lparr>resources :=
          map (\<lambda>row. if ?hit row
                     then row\<lparr>res_resource_config_id := Some (scope_ResourceConfig_ID scope),
                              res_resource_config_scope_id := Some (scope_ID scope)\<rparr>
                     else row) (resources (committed w))\<rparr>"
  from assms(2) have "filter ?hit (resources (committed w)) \<noteq> []"
    by (auto simp: filter_empty_conv)
  then have pos: "0 < length (filter ?hit (resources (committed w)))"
    by simp
  have "snd (SetResourceConfigScope (traced (pg m)) r scope (w, [])) =
      (w\<lparr>committed := d1\<lparr>jobs := bump (clock w)
                  (rev (sort (remdups [fst ji. ji \<leftarrow> job_inputs d1, snd ji = r_id r]))) (jobs d1)\<rparr>,
              schedule_log := schedule_log w
                  @ rev (sort (remdups [fst ji. ji \<leftarrow> job_inputs d1, snd ji = r_id r]))\<rparr>,
       [CallBegin, CallSetResourceConfigScope (r_id r) (scope_ResourceConfig_ID scope)
                     (scope_ID scope)] @ map CallRequestSchedule
             (rev (sort (remdups [fst ji. ji \<leftarrow> job_inputs d1, snd ji = r_id r])))
            @ [CallCommit, CallRollback])"
    using o pos
    by (simp add: SetResourceConfigScope_def setResourceConfigScopeInTransaction_def pg_Begin_def
        deferRollback_def run_def sql_set_resource_config_scope_def d1_def recorded_def
        requestSchedule_traced pg_Commit_def pg_Rollback_def)
  then show ?thesis
    by (intro scheduled_in_transaction_after [where ?d1.0 = d1]) (simp_all add: d1_def)
qed

text \<open>
  C5: every successful \<^verbatim>\<open>PinVersion\<close>, \<^verbatim>\<open>UnpinVersion\<close>, \<^verbatim>\<open>EnableVersion\<close> and
  \<^verbatim>\<open>DisableVersion\<close>, and every successful \<^verbatim>\<open>SetResourceConfigScope\<close> that affects
  a row, within its transaction (between its \<^verbatim>\<open>Begin\<close> and its \<^verbatim>\<open>Commit\<close>, after
  the mutation), sets \<open>schedule_requested = now()\<close> for every job that has a
  \<open>job_inputs\<close> row referencing the resource, and issues those job updates, and
  no other, in descending order of job id.
\<close>

theorem mutations_request_schedule_in_transaction:
  "(fst (PinVersion (traced (pg m)) r rcvID (w, [])) = (True, None)
      \<longrightarrow> scheduled_in_transaction (r_id r) (CallUpsertPin (r_id r) rcvID) w
            (snd (PinVersion (traced (pg m)) r rcvID (w, []))))
   \<and> (fst (UnpinVersion (traced (pg m)) r (w, [])) = None
      \<longrightarrow> scheduled_in_transaction (r_id r) (CallDeletePin (r_id r)) w
            (snd (UnpinVersion (traced (pg m)) r (w, []))))
   \<and> (fst (EnableVersion (traced (pg m)) r rcvID (w, [])) = None
      \<longrightarrow> scheduled_in_transaction (r_id r) (CallDeleteDisabledVersion (r_id r) rcvID) w
            (snd (EnableVersion (traced (pg m)) r rcvID (w, []))))
   \<and> (fst (DisableVersion (traced (pg m)) r rcvID (w, [])) = None
      \<longrightarrow> scheduled_in_transaction (r_id r) (CallInsertDisabledVersion (r_id r) rcvID) w
            (snd (DisableVersion (traced (pg m)) r rcvID (w, []))))
   \<and> (fst (SetResourceConfigScope (traced (pg m)) r scope (w, [])) = None
       \<and> (\<exists>row \<in> set (resources (committed w)).
             scope_differs (r_id r) (scope_ResourceConfig_ID scope) (scope_ID scope) row)
      \<longrightarrow> scheduled_in_transaction (r_id r)
            (CallSetResourceConfigScope (r_id r) (scope_ResourceConfig_ID scope) (scope_ID scope)) w
            (snd (SetResourceConfigScope (traced (pg m)) r scope (w, []))))"
  using PinVersion_traced_success [of m r rcvID w] UnpinVersion_traced_success [of m r w]
    toggleVersion_traced_success [of m r rcvID True w]
    toggleVersion_traced_success [of m r rcvID False w]
    SetResourceConfigScope_traced_success [of m r scope w]
  by (simp add: EnableVersion_def DisableVersion_def)

theorem mutations_request_schedule_in_transaction_witness:
  "scheduled_in_transaction (r_id example_resource) (CallUpsertPin (r_id example_resource) 3)
     example_world (snd (PinVersion (traced (pg example_md5)) example_resource 3 (example_world, [])))
   \<and> scheduled_in_transaction (r_id example_resource) (CallDeletePin (r_id example_resource))
     (example_pinned_world False)
     (snd (UnpinVersion (traced (pg example_md5)) example_resource (example_pinned_world False, [])))
   \<and> scheduled_in_transaction (r_id example_resource)
     (CallDeleteDisabledVersion (r_id example_resource) 2) example_world
     (snd (EnableVersion (traced (pg example_md5)) example_resource 2 (example_world, [])))
   \<and> scheduled_in_transaction (r_id example_resource)
     (CallInsertDisabledVersion (r_id example_resource) 1) example_world
     (snd (DisableVersion (traced (pg example_md5)) example_resource 1 (example_world, [])))
   \<and> scheduled_in_transaction (r_id example_resource)
     (CallSetResourceConfigScope (r_id example_resource) (scope_ResourceConfig_ID example_scope)
        (scope_ID example_scope)) example_world
     (snd (SetResourceConfigScope (traced (pg example_md5)) example_resource example_scope
        (example_world, [])))
   \<and> snd (snd (PinVersion (traced (pg example_md5)) example_resource 3 (example_world, [])))
     = [CallBegin, CallUpsertPin 1 3, CallRequestSchedule 6, CallRequestSchedule 4,
        CallCommit, CallRollback]
   \<and> map j_schedule_requested (jobs (committed (fst (snd
         (PinVersion (traced (pg example_md5)) example_resource 3 (example_world, []))))))
     = [7, 0, 7]"
proof -
  have h1: "fst (PinVersion (traced (pg example_md5)) example_resource 3 (example_world, []))
      = (True, None)"
    by code_simp
  have h2: "fst (UnpinVersion (traced (pg example_md5)) example_resource
      (example_pinned_world False, [])) = None"
    by code_simp
  have h3: "fst (EnableVersion (traced (pg example_md5)) example_resource 2 (example_world, []))
      = None"
    by code_simp
  have h4: "fst (DisableVersion (traced (pg example_md5)) example_resource 1 (example_world, []))
      = None"
    by code_simp
  have h5: "fst (SetResourceConfigScope (traced (pg example_md5)) example_resource example_scope
      (example_world, [])) = None"
    by code_simp
  have h5': "\<exists>row \<in> set (resources (committed example_world)).
      scope_differs (r_id example_resource) (scope_ResourceConfig_ID example_scope)
        (scope_ID example_scope) row"
    by code_simp
  have h6: "snd (snd (PinVersion (traced (pg example_md5)) example_resource 3 (example_world, [])))
     = [CallBegin, CallUpsertPin 1 3, CallRequestSchedule 6, CallRequestSchedule 4,
        CallCommit, CallRollback]"
    by code_simp
  have h7: "map j_schedule_requested (jobs (committed (fst (snd
         (PinVersion (traced (pg example_md5)) example_resource 3 (example_world, []))))))
     = [7, 0, 7]"
    by code_simp
  show ?thesis
    using mutations_request_schedule_in_transaction
        [of example_md5 example_resource 3 example_world example_scope]
      mutations_request_schedule_in_transaction
        [of example_md5 example_resource 3 "example_pinned_world False" example_scope]
      mutations_request_schedule_in_transaction
        [of example_md5 example_resource 2 example_world example_scope]
      mutations_request_schedule_in_transaction
        [of example_md5 example_resource 1 example_world example_scope]
      h1 h2 h3 h4 h5 h5' h6 h7
    by blast
qed

subsection \<open>A pin owned by the pipeline configuration\<close>

lemma sql_resource_Inr:
  assumes "sql_resource rid d = Inr row"
  shows "sc_id row = rid"
    and "sc_pinnedVersion row = map_option rp_version (resource_pins d rid)"
    and "sc_pinComment row = map_option rp_comment_text (resource_pins d rid)"
    and "sc_pinnedThroughConfig row = map_option rp_config (resource_pins d rid)"
proof -
  define rows where "rows =
     [\<lparr>sc_id = res_id row, sc_name = res_name row, sc_pipeline_id = res_pipeline_id row,
              sc_team_id = t, sc_rcID = res_resource_config_id row,
              sc_rcScopeID = res_resource_config_scope_id row,
              sc_pinnedVersion = map_option rp_version (resource_pins d (res_id row)),
              sc_pinComment = map_option rp_comment_text (resource_pins d (res_id row)),
              sc_pinnedThroughConfig = map_option rp_config (resource_pins d (res_id row))\<rparr>.
            row \<leftarrow> resources d, res_active row, res_id row = rid,
            p \<leftarrow> pipelines d, fst p = res_pipeline_id row,
            t \<leftarrow> teams d, t = snd p]"
  from assms have "row \<in> set rows"
    unfolding sql_resource_def rows_def [symmetric] by (cases rows) auto
  then show "sc_id row = rid"
    and "sc_pinnedVersion row = map_option rp_version (resource_pins d rid)"
    and "sc_pinComment row = map_option rp_comment_text (resource_pins d rid)"
    and "sc_pinnedThroughConfig row = map_option rp_config (resource_pins d rid)"
    by (auto simp: rows_def)
qed

text \<open>
  C3: when the pin of the resource has \<open>config = true\<close>, \<^verbatim>\<open>PinVersion\<close> returns
  \<^verbatim>\<open>ErrPinnedThroughConfig\<close> for any version id and leaves the connection state as
  it was (nothing is written and the transaction is rolled back); a resource
  reloaded afterwards still has the version of the config pin as its
  \<^verbatim>\<open>CurrentPinnedVersion\<close>.
\<close>

theorem PinVersion_pinned_through_config:
  assumes "open_tx w = None"
    and "resource_pins (committed w) (r_id r) = Some p"
    and "rp_config p"
  shows "PinVersion (pg m) r rcvID w = ((False, Some ErrPinnedThroughConfig), w)
    \<and> (\<forall>r'. fst (Reload (pg m) r (snd (PinVersion (pg m) r rcvID w))) = ((True, None), r')
          \<longrightarrow> unmarshalVersion (rp_version p) = Inr (CurrentPinnedVersion r'))"
proof -
  have 1: "PinVersion (pg m) r rcvID w = ((False, Some ErrPinnedThroughConfig), w)"
    using assms
    by (simp add: PinVersion_def pg_Begin_def deferRollback_def ask_def
        sql_pinned_through_config_def pg_Rollback_def)
  have 2: "unmarshalVersion (rp_version p) = Inr (CurrentPinnedVersion r')"
    if "fst (Reload (pg m) r w) = ((True, None), r')" for r'
  proof -
    from that assms(1) obtain row where
      q: "sql_resource (r_id r) (committed w) = Inr row"
      and s: "scanResource r row = Inr r'"
      by (auto simp: Reload_def ask_def split: sum.splits if_splits)
    from sql_resource_Inr [OF q] assms(2,3) have
      "sc_pinnedVersion row = Some (rp_version p)" "sc_pinnedThroughConfig row = Some True"
      by simp_all
    with s show ?thesis
      by (auto simp: scanResource_def CurrentPinnedVersion_def Let_def
          split: sum.splits option.splits)
  qed
  show ?thesis
    using 1 2 by simp
qed

theorem PinVersion_pinned_through_config_witness:
  "PinVersion (pg example_md5) example_resource 2 (example_pinned_world True)
     = ((False, Some ErrPinnedThroughConfig), example_pinned_world True)
   \<and> (\<exists>r'. fst (Reload (pg example_md5) example_resource (example_pinned_world True))
            = ((True, None), r')
        \<and> CurrentPinnedVersion r' = Some [(''ref'', ''a'')])"
proof -
  define p where "p = \<lparr>rp_version = JObj [(''ref'', JStr ''a'')], rp_comment_text = ''hold'',
                rp_config = True\<rparr>"
  have a: "open_tx (example_pinned_world True) = None"
    by (simp add: example_pinned_world_def example_world_def)
  have b: "resource_pins (committed (example_pinned_world True)) (r_id example_resource) = Some p"
    by (simp add: example_pinned_world_def example_resource_def p_def)
  have c: "rp_config p"
    by (simp add: p_def)
  have d: "fst (fst (Reload (pg example_md5) example_resource (example_pinned_world True)))
      = (True, None)"
    by code_simp
  have e: "unmarshalVersion (rp_version p) = Inr (Some [(''ref'', ''a'')])"
    by (simp add: p_def)
  obtain r' where r': "fst (Reload (pg example_md5) example_resource (example_pinned_world True))
      = ((True, None), r')"
    using d by (metis prod.collapse)
  note main = PinVersion_pinned_through_config [OF a b c, of example_md5 2]
  from main have 1: "PinVersion (pg example_md5) example_resource 2 (example_pinned_world True)
     = ((False, Some ErrPinnedThroughConfig), example_pinned_world True)"
    by (rule conjunct1)
  from main r' have "unmarshalVersion (rp_version p) = Inr (CurrentPinnedVersion r')"
    unfolding 1 by simp
  with e have "CurrentPinnedVersion r' = Some [(''ref'', ''a'')]"
    by simp
  with 1 r' show ?thesis
    by blast
qed

lemma no_scope_differs_after:
  "\<not> scope_differs rid rc sc
       (if scope_differs rid rc sc row
        then row\<lparr>res_resource_config_id := Some rc, res_resource_config_scope_id := Some sc\<rparr>
        else row)"
  by (simp add: scope_differs_def)

lemma SetResourceConfigScope_pg_no_change:
  assumes "open_tx w = None"
    and "\<forall>row \<in> set (resources (committed w)).
           \<not> scope_differs (r_id r) (scope_ResourceConfig_ID scope) (scope_ID scope) row"
  shows "SetResourceConfigScope (pg m) r scope w = (None, w)"
proof -
  let ?hit = "scope_differs (r_id r) (scope_ResourceConfig_ID scope) (scope_ID scope)"
  have f: "filter ?hit (resources (committed w)) = []"
    using assms(2) by (simp add: filter_empty_conv)
  have "map (\<lambda>row. if ?hit row
                     then row\<lparr>res_resource_config_id := Some (scope_ResourceConfig_ID scope),
                              res_resource_config_scope_id := Some (scope_ID scope)\<rparr>
                     else row) (resources (committed w)) = resources (committed w)"
    using assms(2) by (simp add: map_idI)
  then have s: "sql_set_resource_config_scope (r_id r) (scope_ResourceConfig_ID scope)
      (scope_ID scope) (committed w) = (Inr (Inr 0), committed w)"
    by (simp add: sql_set_resource_config_scope_def f)
  show ?thesis
    using assms(1) s
    by (simp add: SetResourceConfigScope_def setResourceConfigScopeInTransaction_def pg_Begin_def
        deferRollback_def run_def pg_Commit_def pg_Rollback_def)
qed

lemma SetResourceConfigScope_pg_result:
  assumes "open_tx w = None"
  shows "fst (SetResourceConfigScope (pg m) r scope w) = None"
    and "open_tx (snd (SetResourceConfigScope (pg m) r scope w)) = None"
    and "resources (committed (snd (SetResourceConfigScope (pg m) r scope w))) =
       map (\<lambda>row. if scope_differs (r_id r) (scope_ResourceConfig_ID scope) (scope_ID scope) row
                  then row\<lparr>res_resource_config_id := Some (scope_ResourceConfig_ID scope),
                           res_resource_config_scope_id := Some (scope_ID scope)\<rparr>
                  else row) (resources (committed w))"
  using assms
  by (simp_all add: SetResourceConfigScope_def setResourceConfigScopeInTransaction_def pg_Begin_def
      deferRollback_def run_def sql_set_resource_config_scope_def requestSchedule_pg
      pg_Commit_def pg_Rollback_def)

text \<open>
  C6: \<^verbatim>\<open>SetResourceConfigScope\<close> rewrites exactly the rows of the resource
  whose config id or scope id is null or differs from the given scope's; when
  there is none, the state is left as it was and no job update is issued;
  and a second call with the same scope changes nothing.
\<close>

theorem SetResourceConfigScope_idempotent:
  assumes "open_tx w = None"
  shows "fst (SetResourceConfigScope (pg m) r scope w) = None
    \<and> resources (committed (snd (SetResourceConfigScope (pg m) r scope w))) =
       map (\<lambda>row. if scope_differs (r_id r) (scope_ResourceConfig_ID scope) (scope_ID scope) row
                  then row\<lparr>res_resource_config_id := Some (scope_ResourceConfig_ID scope),
                           res_resource_config_scope_id := Some (scope_ID scope)\<rparr>
                  else row) (resources (committed w))
    \<and> ((\<forall>row \<in> set (resources (committed w)).
           \<not> scope_differs (r_id r) (scope_ResourceConfig_ID scope) (scope_ID scope) row)
        \<longrightarrow> snd (SetResourceConfigScope (pg m) r scope w) = w)
    \<and> SetResourceConfigScope (pg m) r scope (snd (SetResourceConfigScope (pg m) r scope w))
        = (None, snd (SetResourceConfigScope (pg m) r scope w))"
proof -
  let ?w1 = "snd (SetResourceConfigScope (pg m) r scope w)"
  note res = SetResourceConfigScope_pg_result [OF assms, of m r scope]
  have "\<forall>row \<in> set (resources (committed ?w1)).
           \<not> scope_differs (r_id r) (scope_ResourceConfig_ID scope) (scope_ID scope) row"
    unfolding res(3) by (auto simp: scope_differs_def)
  from SetResourceConfigScope_pg_no_change [OF res(2) this]
  have again: "SetResourceConfigScope (pg m) r scope ?w1 = (None, ?w1)" .
  show ?thesis
    using res(1,3) again SetResourceConfigScope_pg_no_change [OF assms, of r scope m]
    by simp
qed

theorem SetResourceConfigScope_idempotent_witness:
  "open_tx example_world = None
   \<and> fst (SetResourceConfigScope (pg example_md5) example_resource example_scope example_world) = None
   \<and> schedule_log (snd (SetResourceConfigScope (pg example_md5) example_resource example_scope
        example_world)) = [6, 4]
   \<and> SetResourceConfigScope (pg example_md5) example_resource example_scope
        (snd (SetResourceConfigScope (pg example_md5) example_resource example_scope example_world))
      = (None, snd (SetResourceConfigScope (pg example_md5) example_resource example_scope
          example_world))"
proof -
  have a: "open_tx example_world = None"
    by (simp add: example_world_def)
  have b: "schedule_log (snd (SetResourceConfigScope (pg example_md5) example_resource example_scope
        example_world)) = [6, 4]"
    by code_simp
  from SetResourceConfigScope_idempotent [OF a, of example_md5 example_resource example_scope] a b
  show ?thesis
    by simp
qed

text \<open>
  C1 says that a build of the resource that is not completed makes an
  automatic \<^verbatim>\<open>CreateBuild\<close> return \<^verbatim>\<open>(nil, false, nil)\<close> without a write. The
  code reads one row of the builds of the resource, the first that the query
  returns. Here the resource has a completed build, returned first, and a
  running one: a third build is inserted, linked and announced.
\<close>

theorem CreateBuild_second_row_running:
  "map b_completed (filter (\<lambda>b. b_resource_id b = Some (r_id example_resource))
       (builds (committed example_builds_world))) = [True, False]
   \<and> fst (CreateBuild (pg example_md5) ''tracker'' example_resource False example_builds_world)
       = (Some \<lparr>b_id = 3, b_name = ''check'', b_status = ''started'', b_job_id = None,
                b_resource_id = Some 1, b_completed = False, b_manually_triggered = False\<rparr>,
          True, None)
   \<and> map b_id (builds (committed (snd (CreateBuild (pg example_md5) ''tracker'' example_resource
        False example_builds_world)))) = [1, 2, 3]
   \<and> map res_build_id (resources (committed (snd (CreateBuild (pg example_md5) ''tracker''
        example_resource False example_builds_world)))) = [Some 3, None]
   \<and> notifications (snd (CreateBuild (pg example_md5) ''tracker'' example_resource False
        example_builds_world)) = [''tracker'']"
  by code_simp

lemma select_where: "[f x. x \<leftarrow> xs, P x] = map f (filter P xs)"
  by (induction xs) simp_all

lemma CreateBuild_first_row_running:
  assumes "open_tx w = None"
    and "filter (\<lambda>b. b_resource_id b = Some (r_id r)) (builds (committed w)) = b # bs"
    and "\<not> b_completed b"
  shows "CreateBuild (pg m) tracker r False w = ((None, False, None), w)"
proof -
  have "[b_completed b. b \<leftarrow> builds (committed w), b_resource_id b = Some (r_id r)]
      = map b_completed (filter (\<lambda>b. b_resource_id b = Some (r_id r)) (builds (committed w)))"
    by (rule select_where)
  then have "sql_build_completed (r_id r) (committed w) = Inr False"
    using assms(2,3) by (simp add: sql_build_completed_def)
  then show ?thesis
    using assms(1)
    by (simp add: CreateBuild_def pg_Begin_def deferRollback_def ask_def pg_Rollback_def)
qed

subsection \<open>Pages of the version ledger\<close>

lemma scanVersions_ids:
  "scanVersions rows = Inr (rvs, cos) \<Longrightarrow> map rv_ID rvs = map vs_id rows"
  by (induction rows arbitrary: rvs cos) (auto split: sum.splits option.splits)

lemma Versions_pg_found:
  assumes "fst (Versions (pg m) r page vf w) = (rvs, pgn, True, None)"
  shows "\<exists>rows. sql_versions_page (r_id r) page vf (committed w) = Inr rows
           \<and> map rv_ID rvs = map vs_id rows"
proof -
  from assms have o: "open_tx w = None"
    by (auto simp: Versions_def pg_Begin_def Let_def split: option.splits)
  define w1 where "w1 = w\<lparr>open_tx := Some (committed w)\<rparr>"
  define f where "f = (case vf of None \<Rightarrow> [] | Some kvs \<Rightarrow> kvs)"
  have q: "(case page_From page of
              Some from \<Rightarrow> queryVersionsFrom (pg m) (r_id r) from (page_Limit page) f w1
            | None \<Rightarrow>
                (case page_To page of
                   Some to \<Rightarrow> queryVersionsTo (pg m) (r_id r) to (page_Limit page) f w1
                 | None \<Rightarrow> queryVersionsLatest (pg m) (r_id r) (page_Limit page) f w1))
        = (sql_versions_page (r_id r) page vf (committed w), w1)"
    by (simp add: sql_versions_page_def ask_def w1_def f_def split: option.splits)
  have v: "Versions (pg m) r page vf w = deferRollback (pg m)
      (case sql_versions_page (r_id r) page vf (committed w) of
         Inl err \<Rightarrow> (([], \<lparr>pagination_Older = None, pagination_Newer = None\<rparr>, False, Some err), w1)
       | Inr rows \<Rightarrow>
           (case scanVersions rows of
              Inl err \<Rightarrow> (([], \<lparr>pagination_Older = None, pagination_Newer = None\<rparr>, False, Some err), w1)
            | Inr (rvs, checkOrderRVs) \<Rightarrow>
                if length rvs = 0 then (([], \<lparr>pagination_Older = None, pagination_Newer = None\<rparr>, True, None), w1)
                else versionsPagination (pg m) r page rvs checkOrderRVs w1))"
    using o unfolding Versions_def Let_def f_def [symmetric]
    by (simp add: pg_Begin_def w1_def [symmetric] q split: sum.splits)
  show ?thesis
  proof (cases "sql_versions_page (r_id r) page vf (committed w)")
    case (Inl e)
    with assms v show ?thesis by (simp add: deferRollback_def)
  next
    case (Inr rows)
    show ?thesis
    proof (cases "scanVersions rows")
      case (Inl e)
      with assms v Inr show ?thesis by (simp add: deferRollback_def)
    next
      case sc: (Inr res)
      obtain rvs' cos where res: "res = (rvs', cos)" by (cases res)
      have "rvs = rvs'"
        using assms v Inr sc res
        by (auto simp: deferRollback_def versionsPagination_def Let_def ask_def
            split: if_splits sum.splits option.splits prod.splits)
      with scanVersions_ids sc res Inr show ?thesis by auto
    qed
  qed
qed

lemma join_none:
  "\<forall>row \<in> set rows. res_id row \<noteq> rid \<Longrightarrow>
   concat (map (\<lambda>row. if res_id row = rid then h row else []) rows) = []"
  by (induction rows) simp_all

lemma join_unique:
  "distinct (map res_id rows) \<Longrightarrow>
   concat (map (\<lambda>row. if res_id row = rid then h row else []) rows)
     = (case filter (\<lambda>row. res_id row = rid) rows of [] \<Rightarrow> [] | row # _ \<Rightarrow> h row)"
proof (induction rows)
  case Nil
  then show ?case by simp
next
  case (Cons a rows)
  show ?case
  proof (cases "res_id a = rid")
    case True
    with Cons.prems have "\<forall>row \<in> set rows. res_id row \<noteq> rid"
      by (auto simp: image_iff)
    then have "concat (map (\<lambda>row. if res_id row = rid then h row else []) rows) = []"
      by (rule join_none)
    with True show ?thesis by simp
  next
    case False
    with Cons show ?thesis by simp
  qed
qed

lemma concat_if_singleton:
  "concat (map (\<lambda>v. if P v then [g v] else []) vs) = map g (filter P vs)"
  by (induction vs) simp_all

lemma sql_versions_unique:
  assumes "distinct (map res_id (resources d))"
  shows "sql_versions rid f d
     = map (version_row d rid) (filter (in_ledger rid f d) (resource_config_versions d))"
proof (cases "filter (\<lambda>row. res_id row = rid) (resources d)")
  case Nil
  then have "sql_versions rid f d = []"
    unfolding sql_versions_def
    by (simp add: join_unique [OF assms])
  moreover from Nil have "\<not> in_ledger rid f d v" for v
    by (simp add: in_ledger_def resource_scope_def)
  ultimately show ?thesis by simp
next
  case (Cons row rest)
  then have "row \<in> set (filter (\<lambda>row. res_id row = rid) (resources d))"
    by simp
  then have id: "res_id row = rid"
    by simp
  have inner: "concat (map (\<lambda>row. if res_id row = rid
        then if res_resource_config_scope_id row = Some (v_resource_config_scope_id v)
             then if contains (v_version v) f
                  then [\<lparr>vs_id = v_id v, vs_version = v_version v, vs_metadata = v_metadata v,
                         vs_check_order = v_check_order v,
                         vs_enabled = ((res_id row, v_version_md5 v)
                            \<notin> set (resource_disabled_versions d))\<rparr>]
                  else [] else [] else []) (resources d))
      = (if in_ledger rid f d v then [version_row d rid v] else [])" for v
    by (simp add: join_unique [OF assms] Cons id in_ledger_def resource_scope_def version_row_def)
  have "sql_versions rid f d
     = concat (map (\<lambda>v. if in_ledger rid f d v then [version_row d rid v] else [])
          (resource_config_versions d))"
    unfolding sql_versions_def inner ..
  then show ?thesis
    by (simp add: concat_if_singleton)
qed

lemma distinct_second:
  assumes "distinct (map (\<lambda>v. (a v, b v)) xs)" and "\<forall>v \<in> set xs. a v = s"
  shows "distinct (map b xs)"
proof -
  have "map (\<lambda>v. (a v, b v)) xs = map (Pair s) (map b xs)"
    using assms(2) by simp
  with assms(1) have "distinct (map (Pair s) (map b xs))"
    by simp
  then have "distinct (map b xs) \<and> inj_on (Pair s) (set (map b xs))"
    by (simp only: distinct_map)
  then show ?thesis ..
qed

lemma ledger_distinct:
  assumes "ledger_invariant d"
  shows "distinct (map vs_check_order (sql_versions rid f d))"
    and "distinct (map vs_id (sql_versions rid f d))"
proof -
  let ?xs = "filter (in_ledger rid f d) (resource_config_versions d)"
  from assms have u: "distinct (map res_id (resources d))"
    by (simp add: ledger_invariant_def)
  have co: "map vs_check_order (sql_versions rid f d) = map v_check_order ?xs"
    and ids: "map vs_id (sql_versions rid f d) = map v_id ?xs"
    by (simp_all add: sql_versions_unique [OF u] version_row_def comp_def)
  from assms have "distinct (map (\<lambda>v. (v_resource_config_scope_id v, v_check_order v)) ?xs)"
    by (simp add: ledger_invariant_def distinct_map_filter)
  moreover have "\<forall>v \<in> set ?xs. v_resource_config_scope_id v = the (resource_scope rid d)"
    by (simp add: in_ledger_def)
  ultimately have "distinct (map v_check_order ?xs)"
    by (rule distinct_second)
  then show "distinct (map vs_check_order (sql_versions rid f d))"
    by (simp add: co)
  from assms have "distinct (map v_id ?xs)"
    by (simp add: ledger_invariant_def distinct_map_filter)
  then show "distinct (map vs_id (sql_versions rid f d))"
    by (simp add: ids)
qed

lemma sort_key_ascending:
  fixes f :: "'a \<Rightarrow> int"
  assumes "distinct (map f xs)"
  shows "sorted_wrt (<) (map f (sort_key f xs))"
proof -
  have "distinct (map f (sort_key f xs))"
    using assms by (simp add: distinct_map)
  moreover have "sorted (map f (sort_key f xs))"
    by simp
  ultimately show ?thesis
    by (simp add: strict_sorted_iff)
qed

lemma sort_key_descending:
  fixes f :: "'a \<Rightarrow> int"
  assumes "distinct (map f xs)"
  shows "sorted_wrt (>) (map f (sort_key (\<lambda>x. - f x) xs))"
proof -
  have "distinct (map (\<lambda>x. - f x) xs)"
    using assms by (simp add: distinct_map inj_on_def)
  then have "sorted_wrt (<) (map (\<lambda>x. - f x) (sort_key (\<lambda>x. - f x) xs))"
    by (rule sort_key_ascending)
  then show ?thesis
    by (simp add: sorted_wrt_map)
qed

lemma insort_key_last:
  fixes g :: "'a \<Rightarrow> int"
  shows "\<forall>y \<in> set ys. g y < g x \<Longrightarrow> insort_key g x ys = ys @ [x]"
  by (induction ys) auto

lemma sort_key_reverses:
  fixes f :: "'a \<Rightarrow> int"
  assumes "sorted_wrt (<) (map f xs)"
  shows "sort_key (\<lambda>x. - f x) xs = rev xs"
  using assms
proof (induction xs)
  case Nil
  then show ?case by simp
next
  case (Cons x xs)
  then have "\<forall>y \<in> set (rev xs). - f y < - f x"
    by auto
  then have "insort_key (\<lambda>x. - f x) x (rev xs) = rev xs @ [x]"
    by (rule insort_key_last)
  with Cons show ?case
    by simp
qed

lemma distinct_sort_key_map:
  "distinct (map f xs) \<Longrightarrow> distinct (map f (sort_key f xs))"
  by (simp add: distinct_map)

lemma sql_limit_Inr:
  "sql_limit n xs = Inr rows \<Longrightarrow> 0 \<le> n \<and> rows = take (nat n) xs"
  by (auto simp: sql_limit_def split: if_splits)

lemma sql_versions_from_sub_props:
  assumes "ledger_invariant d" and "sql_versions_from_sub rid from n f d = Inr sub"
  shows "sorted_wrt (<) (map vs_check_order sub)"
    and "set sub \<subseteq> set (sql_versions rid f d)"
    and "sql_versions_from rid from n f d = Inr (rev sub)"
proof -
  from assms(2) obtain cursor where
    c: "sql_cursor_check_order from d = Inr cursor"
    and l: "sql_limit n (sort_key vs_check_order
               (filter (\<lambda>row. case cursor of None \<Rightarrow> False | Some c \<Rightarrow> vs_check_order row \<ge> c)
                  (sql_versions rid f d))) = Inr sub"
    by (auto simp: sql_versions_from_sub_def split: sum.splits)
  let ?C = "filter (\<lambda>row. case cursor of None \<Rightarrow> False | Some c \<Rightarrow> vs_check_order row \<ge> c)
                  (sql_versions rid f d)"
  from sql_limit_Inr [OF l] have sub: "sub = take (nat n) (sort_key vs_check_order ?C)"
    by simp
  have "distinct (map vs_check_order ?C)"
    using ledger_distinct(1) [OF assms(1), of rid f] by (simp add: distinct_map_filter)
  then have "sorted_wrt (<) (map vs_check_order (sort_key vs_check_order ?C))"
    by (rule sort_key_ascending)
  then have "sorted_wrt (<) (take (nat n) (map vs_check_order (sort_key vs_check_order ?C)))"
    by (rule sorted_wrt_take)
  then show asc: "sorted_wrt (<) (map vs_check_order sub)"
    by (simp add: sub take_map)
  have "set sub \<subseteq> set (sort_key vs_check_order ?C)"
    unfolding sub by (rule set_take_subset)
  then show "set sub \<subseteq> set (sql_versions rid f d)"
    by auto
  show "sql_versions_from rid from n f d = Inr (rev sub)"
    using assms(2) sort_key_reverses [OF asc] by (simp add: sql_versions_from_def)
qed

lemma sql_versions_page_descending:
  assumes "ledger_invariant d" and "sql_versions_page rid page vf d = Inr rows"
  shows "sorted_wrt (>) (map vs_check_order rows)"
    and "set rows \<subseteq> set (sql_versions rid (filter_of vf) d)"
proof -
  let ?V = "sql_versions rid (filter_of vf) d"
  note dV = ledger_distinct(1) [OF assms(1), of rid "filter_of vf"]
  have "sorted_wrt (>) (map vs_check_order rows) \<and> set rows \<subseteq> set ?V"
  proof (cases "page_From page")
    case (Some cursorID)
    with assms(2) have f: "sql_versions_from rid cursorID (page_Limit page) (filter_of vf) d = Inr rows"
      by (simp add: sql_versions_page_def filter_of_def)
    then obtain sub where s: "sql_versions_from_sub rid cursorID (page_Limit page) (filter_of vf) d = Inr sub"
      by (auto simp: sql_versions_from_def split: sum.splits)
    note p = sql_versions_from_sub_props [OF assms(1) s]
    from p(3) f have "rows = rev sub" by simp
    with p(1,2) show ?thesis
      by (simp add: sorted_wrt_rev rev_map [symmetric])
  next
    case None
    show ?thesis
    proof (cases "page_To page")
      case (Some to)
      with None assms(2) obtain cursor where
        l: "sql_limit (page_Limit page) (sort_key (\<lambda>row. - vs_check_order row)
               (filter (\<lambda>row. case cursor of None \<Rightarrow> False | Some c \<Rightarrow> vs_check_order row \<le> c) ?V))
             = Inr rows"
        by (auto simp: sql_versions_page_def filter_of_def sql_versions_to_def split: sum.splits)
      let ?C = "filter (\<lambda>row. case cursor of None \<Rightarrow> False | Some c \<Rightarrow> vs_check_order row \<le> c) ?V"
      from sql_limit_Inr [OF l]
      have rows: "rows = take (nat (page_Limit page)) (sort_key (\<lambda>row. - vs_check_order row) ?C)"
        by simp
      have "distinct (map vs_check_order ?C)"
        using dV by (simp add: distinct_map_filter)
      then have "sorted_wrt (>) (map vs_check_order (sort_key (\<lambda>row. - vs_check_order row) ?C))"
        by (rule sort_key_descending)
      then have "sorted_wrt (>) (take (nat (page_Limit page))
          (map vs_check_order (sort_key (\<lambda>row. - vs_check_order row) ?C)))"
        by (rule sorted_wrt_take)
      moreover have "set rows \<subseteq> set (sort_key (\<lambda>row. - vs_check_order row) ?C)"
        unfolding rows by (rule set_take_subset)
      ultimately show ?thesis
        by (auto simp: rows take_map)
    next
      case To: None
      with None assms(2) have
        l: "sql_limit (page_Limit page) (sort_key (\<lambda>row. - vs_check_order row) ?V) = Inr rows"
        by (simp add: sql_versions_page_def filter_of_def sql_versions_latest_def)
      from sql_limit_Inr [OF l]
      have rows: "rows = take (nat (page_Limit page)) (sort_key (\<lambda>row. - vs_check_order row) ?V)"
        by simp
      from dV have "sorted_wrt (>) (map vs_check_order (sort_key (\<lambda>row. - vs_check_order row) ?V))"
        by (rule sort_key_descending)
      then have "sorted_wrt (>) (take (nat (page_Limit page))
          (map vs_check_order (sort_key (\<lambda>row. - vs_check_order row) ?V)))"
        by (rule sorted_wrt_take)
      moreover have "set rows \<subseteq> set (sort_key (\<lambda>row. - vs_check_order row) ?V)"
        unfolding rows by (rule set_take_subset)
      ultimately show ?thesis
        by (auto simp: rows take_map)
    qed
  qed
  then show "sorted_wrt (>) (map vs_check_order rows)"
    and "set rows \<subseteq> set (sql_versions rid (filter_of vf) d)"
    by simp_all
qed

lemma filter_key_unique:
  "distinct (map f xs) \<Longrightarrow> x \<in> set xs \<Longrightarrow> filter (\<lambda>v. f v = f x) xs = [x]"
proof (induction xs)
  case Nil
  then show ?case by simp
next
  case (Cons a xs)
  show ?case
  proof (cases "x = a")
    case True
    with Cons.prems have "\<forall>v \<in> set xs. f v \<noteq> f a"
      by (auto simp: image_iff)
    then have "filter (\<lambda>v. f v = f a) xs = []"
      by (simp add: filter_empty_conv)
    with True show ?thesis by simp
  next
    case False
    with Cons.prems have "x \<in> set xs" "f a \<noteq> f x"
      by (auto simp: image_iff)
    with Cons show ?thesis by simp
  qed
qed

lemma cursor_check_order:
  assumes "distinct (map v_id (resource_config_versions d))"
    and "cur \<in> set (resource_config_versions d)"
  shows "sql_cursor_check_order (v_id cur) d = Inr (Some (v_check_order cur))"
  using filter_key_unique [OF assms]
  by (simp add: sql_cursor_check_order_def select_where scalar_def)

lemma hd_least:
  fixes f :: "'a \<Rightarrow> int"
  assumes "sorted_wrt (<) (map f xs)" and "x \<in> set xs" and "\<forall>y \<in> set xs. f x \<le> f y"
  shows "hd xs = x"
proof (cases xs)
  case Nil
  with assms(2) show ?thesis by simp
next
  case (Cons a rest)
  show ?thesis
  proof (cases "x = a")
    case True
    with Cons show ?thesis by simp
  next
    case False
    with Cons assms(2) have "x \<in> set rest" by simp
    with Cons assms(1) have "f a < f x" by auto
    moreover from Cons assms(3) have "f x \<le> f a" by simp
    ultimately show ?thesis by simp
  qed
qed

lemma in_take:
  assumes "x \<in> set xs" and "hd xs = x" and "1 \<le> n"
  shows "x \<in> set (take (nat n) xs)"
proof -
  from assms(1) have "xs \<noteq> []" by auto
  with assms(3) have "take (nat n) xs \<noteq> []" by auto
  then have "hd (take (nat n) xs) \<in> set (take (nat n) xs)"
    by (rule hd_in_set)
  with assms(2,3) show ?thesis by simp
qed

lemma version_row_in_ledger:
  assumes "ledger_invariant d" and "cur \<in> set (resource_config_versions d)"
    and "in_ledger rid f d cur"
  shows "version_row d rid cur \<in> set (sql_versions rid f d)"
proof -
  from assms(1) have "distinct (map res_id (resources d))"
    by (simp add: ledger_invariant_def)
  from sql_versions_unique [OF this] assms(2,3) show ?thesis
    by simp
qed

lemma cursor_in_page:
  assumes "ledger_invariant d" and "cur \<in> set (resource_config_versions d)"
    and "in_ledger rid (filter_of vf) d cur" and "1 \<le> page_Limit page"
    and "page_From page = Some (v_id cur) \<or> page_From page = None \<and> page_To page = Some (v_id cur)"
    and "sql_versions_page rid page vf d = Inr rows"
  shows "version_row d rid cur \<in> set rows"
proof -
  let ?V = "sql_versions rid (filter_of vf) d"
  let ?x = "version_row d rid cur"
  note dV = ledger_distinct(1) [OF assms(1), of rid "filter_of vf"]
  from assms(1) have "distinct (map v_id (resource_config_versions d))"
    by (simp add: ledger_invariant_def)
  note c = cursor_check_order [OF this assms(2)]
  note xV = version_row_in_ledger [OF assms(1,2,3)]
  have co: "vs_check_order ?x = v_check_order cur"
    by (simp add: version_row_def)
  from assms(5) show ?thesis
  proof
    assume f: "page_From page = Some (v_id cur)"
    let ?C = "filter (\<lambda>row. vs_check_order row \<ge> v_check_order cur) ?V"
    let ?S = "sort_key vs_check_order ?C"
    from f assms(6) c have rows: "rows = sort_key (\<lambda>row. - vs_check_order row)
        (take (nat (page_Limit page)) ?S)"
      by (auto simp: sql_versions_page_def filter_of_def sql_versions_from_def
          sql_versions_from_sub_def sql_limit_def split: sum.splits if_splits)
    have "distinct (map vs_check_order ?C)"
      using dV by (simp add: distinct_map_filter)
    then have "sorted_wrt (<) (map vs_check_order ?S)"
      by (rule sort_key_ascending)
    moreover have "?x \<in> set ?S"
      using xV co by simp
    moreover have "\<forall>y \<in> set ?S. vs_check_order ?x \<le> vs_check_order y"
      using co by simp
    ultimately have "hd ?S = ?x"
      by (rule hd_least)
    with \<open>?x \<in> set ?S\<close> have "?x \<in> set (take (nat (page_Limit page)) ?S)"
      using assms(4) by (intro in_take)
    then show ?thesis
      by (simp add: rows)
  next
    assume t: "page_From page = None \<and> page_To page = Some (v_id cur)"
    let ?C = "filter (\<lambda>row. vs_check_order row \<le> v_check_order cur) ?V"
    let ?S = "sort_key (\<lambda>row. - vs_check_order row) ?C"
    from t assms(6) c have rows: "rows = take (nat (page_Limit page)) ?S"
      by (auto simp: sql_versions_page_def filter_of_def sql_versions_to_def sql_limit_def
          split: sum.splits if_splits)
    have "distinct (map vs_check_order ?C)"
      using dV by (simp add: distinct_map_filter)
    then have "distinct (map (\<lambda>row. - vs_check_order row) ?C)"
      by (simp add: distinct_map inj_on_def)
    then have "sorted_wrt (<) (map (\<lambda>row. - vs_check_order row) ?S)"
      by (rule sort_key_ascending)
    moreover have "?x \<in> set ?S"
      using xV co by simp
    moreover have "\<forall>y \<in> set ?S. - vs_check_order ?x \<le> - vs_check_order y"
      using co by simp
    ultimately have "hd ?S = ?x"
      by (rule hd_least)
    with \<open>?x \<in> set ?S\<close> have "?x \<in> set (take (nat (page_Limit page)) ?S)"
      using assms(4) by (intro in_take)
    then show ?thesis
      by (simp add: rows)
  qed
qed

lemma page_bounds:
  assumes "distinct (map v_id (resource_config_versions d))"
    and "cur \<in> set (resource_config_versions d)"
    and "page_From page = Some (v_id cur) \<or> page_From page = None \<and> page_To page = Some (v_id cur)"
    and "sql_versions_page rid page vf d = Inr rows" and "row \<in> set rows"
  shows "if page_From page = None then vs_check_order row \<le> v_check_order cur
         else v_check_order cur \<le> vs_check_order row"
proof -
  let ?V = "sql_versions rid (filter_of vf) d"
  note c = cursor_check_order [OF assms(1,2)]
  from assms(3) show ?thesis
  proof
    assume f: "page_From page = Some (v_id cur)"
    let ?S = "sort_key vs_check_order (filter (\<lambda>row. vs_check_order row \<ge> v_check_order cur) ?V)"
    from f assms(4) c have "rows = sort_key (\<lambda>row. - vs_check_order row)
        (take (nat (page_Limit page)) ?S)"
      by (auto simp: sql_versions_page_def filter_of_def sql_versions_from_def
          sql_versions_from_sub_def sql_limit_def split: sum.splits if_splits)
    with assms(5) have "row \<in> set (take (nat (page_Limit page)) ?S)"
      by simp
    then have "row \<in> set ?S"
      by (rule in_set_takeD)
    with f show ?thesis by simp
  next
    assume t: "page_From page = None \<and> page_To page = Some (v_id cur)"
    let ?S = "sort_key (\<lambda>row. - vs_check_order row)
        (filter (\<lambda>row. vs_check_order row \<le> v_check_order cur) ?V)"
    from t assms(4) c have "rows = take (nat (page_Limit page)) ?S"
      by (auto simp: sql_versions_page_def filter_of_def sql_versions_to_def sql_limit_def
          split: sum.splits if_splits)
    with assms(5) have "row \<in> set ?S"
      by (auto dest: in_set_takeD)
    with t show ?thesis by simp
  qed
qed

lemma preimage_list:
  "set ys \<subseteq> f ` A \<Longrightarrow> \<exists>xs. set xs \<subseteq> A \<and> map f xs = ys"
proof (induction ys)
  case Nil
  then show ?case by simp
next
  case (Cons y ys)
  then obtain xs where xs: "set xs \<subseteq> A" "map f xs = ys"
    by auto
  from Cons.prems obtain x where "x \<in> A" "f x = y"
    by auto
  with xs have "set (x # xs) \<subseteq> A \<and> map f (x # xs) = y # ys"
    by simp
  then show ?case
    by (rule exI [of _ "x # xs"])
qed

lemma page_rows_from_table:
  assumes "ledger_invariant d" and "sql_versions_page rid page vf d = Inr rows"
  shows "\<exists>vs. set vs \<subseteq> set (resource_config_versions d) \<and> map (version_row d rid) vs = rows"
proof -
  from assms(1) have "distinct (map res_id (resources d))"
    by (simp add: ledger_invariant_def)
  from sql_versions_unique [OF this] sql_versions_page_descending(2) [OF assms]
  have "set rows \<subseteq> version_row d rid ` set (resource_config_versions d)"
    by auto
  then show ?thesis
    by (rule preimage_list)
qed

lemma Versions_strictly_descending:
  assumes "ledger_invariant (committed w)"
    and "fst (Versions (pg m) r page vf w) = (rvs, pagination, True, None)"
  shows "(\<exists>vs. set vs \<subseteq> set (resource_config_versions (committed w))
            \<and> map v_id vs = map rv_ID rvs
            \<and> sorted_wrt (>) (map v_check_order vs))
     \<and> (\<forall>cursorID sub. page_From page = Some cursorID
            \<and> sql_versions_from_sub (r_id r) cursorID (page_Limit page) (filter_of vf) (committed w)
                = Inr sub
          \<longrightarrow> sorted_wrt (<) (map vs_check_order sub)
              \<and> sql_versions_from (r_id r) cursorID (page_Limit page) (filter_of vf) (committed w)
                  = Inr (rev sub)
              \<and> map rv_ID rvs = map vs_id (rev sub))"
proof -
  from Versions_pg_found [OF assms(2)] obtain rows where
    q: "sql_versions_page (r_id r) page vf (committed w) = Inr rows"
    and ids: "map rv_ID rvs = map vs_id rows"
    by blast
  from page_rows_from_table [OF assms(1) q] obtain vs where
    vs: "set vs \<subseteq> set (resource_config_versions (committed w))"
      "map (version_row (committed w) (r_id r)) vs = rows"
    by blast
  from vs(2) have "map vs_id rows = map v_id vs" "map vs_check_order rows = map v_check_order vs"
    by (auto simp: version_row_def)
  with sql_versions_page_descending(1) [OF assms(1) q] ids vs(1)
  have 1: "\<exists>vs. set vs \<subseteq> set (resource_config_versions (committed w))
            \<and> map v_id vs = map rv_ID rvs
            \<and> sorted_wrt (>) (map v_check_order vs)"
    by (intro exI [of _ vs]) simp
  have 2: "sorted_wrt (<) (map vs_check_order sub)
              \<and> sql_versions_from (r_id r) cursorID (page_Limit page) (filter_of vf) (committed w)
                  = Inr (rev sub)
              \<and> map rv_ID rvs = map vs_id (rev sub)"
    if "page_From page = Some cursorID"
      and "sql_versions_from_sub (r_id r) cursorID (page_Limit page) (filter_of vf) (committed w)
                = Inr sub" for cursorID sub
  proof -
    note p = sql_versions_from_sub_props [OF assms(1) that(2)]
    have "sql_versions_page (r_id r) page vf (committed w)
        = sql_versions_from (r_id r) cursorID (page_Limit page) (filter_of vf) (committed w)"
      using that(1) by (simp add: sql_versions_page_def filter_of_def)
    with q have "sql_versions_from (r_id r) cursorID (page_Limit page) (filter_of vf) (committed w)
        = Inr rows"
      by simp
    with p(3) have "rows = rev sub"
      by simp
    with p(1,3) ids show ?thesis by simp
  qed
  show ?thesis
  proof (intro conjI allI impI)
    show "\<exists>vs. set vs \<subseteq> set (resource_config_versions (committed w))
            \<and> map v_id vs = map rv_ID rvs
            \<and> sorted_wrt (>) (map v_check_order vs)"
      by (rule 1)
  next
    fix cursorID sub
    assume "page_From page = Some cursorID
            \<and> sql_versions_from_sub (r_id r) cursorID (page_Limit page) (filter_of vf) (committed w)
                = Inr sub"
    then have "sorted_wrt (<) (map vs_check_order sub)
              \<and> sql_versions_from (r_id r) cursorID (page_Limit page) (filter_of vf) (committed w)
                  = Inr (rev sub)
              \<and> map rv_ID rvs = map vs_id (rev sub)"
      using 2 [of cursorID sub] by simp
    then show "sorted_wrt (<) (map vs_check_order sub)"
      and "sql_versions_from (r_id r) cursorID (page_Limit page) (filter_of vf) (committed w)
                  = Inr (rev sub)"
      and "map rv_ID rvs = map vs_id (rev sub)"
      by simp_all
  qed
qed

text \<open>
  C4, amended: the cursor is an inclusive bound by check order. Every version of
  a successful page has a check order at least (for \<open>from\<close>) or at most (for
  \<open>to\<close>) that of the version whose id is the cursor, and that version is itself
  in the page when it is in the scope of the resource, contains the filter, and
  the limit is at least one.
\<close>

theorem Versions_cursor_inclusive:
  assumes "ledger_invariant (committed w)"
    and "fst (Versions (pg m) r page vf w) = (rvs, pagination, True, None)"
    and "cur \<in> set (resource_config_versions (committed w))"
    and "page_From page = Some (v_id cur) \<or> page_From page = None \<and> page_To page = Some (v_id cur)"
  shows "(\<forall>rv \<in> set rvs. \<exists>v \<in> set (resource_config_versions (committed w)).
            v_id v = rv_ID rv
            \<and> (if page_From page = None then v_check_order v \<le> v_check_order cur
               else v_check_order cur \<le> v_check_order v))
     \<and> (in_ledger (r_id r) (filter_of vf) (committed w) cur \<and> 1 \<le> page_Limit page
          \<longrightarrow> v_id cur \<in> rv_ID ` set rvs)"
proof -
  let ?d = "committed w"
  from Versions_pg_found [OF assms(2)] obtain rows where
    q: "sql_versions_page (r_id r) page vf ?d = Inr rows"
    and ids: "map rv_ID rvs = map vs_id rows"
    by blast
  from assms(1) have dv: "distinct (map v_id (resource_config_versions ?d))"
    by (simp add: ledger_invariant_def)
  from page_rows_from_table [OF assms(1) q] obtain vs where
    vs: "set vs \<subseteq> set (resource_config_versions ?d)"
      "map (version_row ?d (r_id r)) vs = rows"
    by blast
  have 1: "\<exists>v \<in> set (resource_config_versions ?d). v_id v = rv_ID rv
            \<and> (if page_From page = None then v_check_order v \<le> v_check_order cur
               else v_check_order cur \<le> v_check_order v)" if "rv \<in> set rvs" for rv
  proof -
    from that have "rv_ID rv \<in> set (map vs_id rows)"
      using ids by (metis image_eqI set_map)
    then obtain row where row: "row \<in> set rows" "vs_id row = rv_ID rv"
      by auto
    with vs(2) obtain v where v: "v \<in> set vs" "row = version_row ?d (r_id r) v"
      by auto
    from v(2) have e: "vs_id row = v_id v" "vs_check_order row = v_check_order v"
      by (simp_all add: version_row_def)
    from v(1) vs(1) have "v \<in> set (resource_config_versions ?d)"
      by (rule subsetD [rotated])
    moreover from page_bounds [OF dv assms(3,4) q row(1)] e row(2)
    have "v_id v = rv_ID rv
            \<and> (if page_From page = None then v_check_order v \<le> v_check_order cur
               else v_check_order cur \<le> v_check_order v)"
      by (cases "page_From page") simp_all
    ultimately show ?thesis ..
  qed
  have 2: "v_id cur \<in> rv_ID ` set rvs"
    if "in_ledger (r_id r) (filter_of vf) ?d cur" and "1 \<le> page_Limit page"
  proof -
    from cursor_in_page [OF assms(1,3) that assms(4) q]
    have "vs_id (version_row ?d (r_id r) cur) \<in> set (map vs_id rows)"
      by simp
    moreover have "set (map vs_id rows) = rv_ID ` set rvs"
      using ids by (metis set_map)
    ultimately show ?thesis
      by (simp add: version_row_def)
  qed
  show ?thesis
  proof (intro conjI ballI impI)
    fix rv
    assume "rv \<in> set rvs"
    then show "\<exists>v \<in> set (resource_config_versions ?d). v_id v = rv_ID rv
            \<and> (if page_From page = None then v_check_order v \<le> v_check_order cur
               else v_check_order cur \<le> v_check_order v)"
      by (rule 1)
  next
    assume "in_ledger (r_id r) (filter_of vf) ?d cur \<and> 1 \<le> page_Limit page"
    then show "v_id cur \<in> rv_ID ` set rvs"
      using 2 by simp
  qed
qed

text \<open>
  C4 as stated: the row whose id is the \<open>from\<close> (or the \<open>to\<close>) cursor is not in
  the page. In the example, the page from version 2 and the page to version 2
  both contain version 2.
\<close>

theorem Versions_cursor_counterexample:
  "map rv_ID (fst (fst (Versions (pg example_md5) example_resource (example_page (Some 2) None)
       None example_world))) = [3, 2]
   \<and> map rv_ID (fst (fst (Versions (pg example_md5) example_resource (example_page None (Some 2))
       None example_world))) = [2, 1]"
  by code_simp

lemma example_ledger: "ledger_invariant (committed example_world)"
  by code_simp

lemma example_versions_from:
  "fst (Versions (pg example_md5) example_resource (example_page (Some 2) None) None example_world)
     = ([\<lparr>rv_ID = 3, rv_Version = Some [(''ref'', ''c'')], rv_Metadata = [], rv_Enabled = True\<rparr>,
         \<lparr>rv_ID = 2, rv_Version = Some [(''ref'', ''b'')], rv_Metadata = [], rv_Enabled = False\<rparr>],
        \<lparr>pagination_Older = Some \<lparr>page_From = None, page_To = Some 1, page_Limit = 2\<rparr>,
         pagination_Newer = None\<rparr>, True, None)"
  by code_simp

lemma example_versions_to:
  "fst (Versions (pg example_md5) example_resource (example_page None (Some 2)) None example_world)
     = ([\<lparr>rv_ID = 2, rv_Version = Some [(''ref'', ''b'')], rv_Metadata = [], rv_Enabled = False\<rparr>,
         \<lparr>rv_ID = 1, rv_Version = Some [(''ref'', ''a'')], rv_Metadata = [], rv_Enabled = True\<rparr>],
        \<lparr>pagination_Older = None,
         pagination_Newer = Some \<lparr>page_From = Some 3, page_To = None, page_Limit = 2\<rparr>\<rparr>,
        True, None)"
  by code_simp

lemma example_version_row: "example_version \<in> set (resource_config_versions (committed example_world))"
  by (simp add: example_version_def example_world_def example_db_def)

theorem Versions_cursor_inclusive_witness:
  "ledger_invariant (committed example_world)
   \<and> example_version \<in> set (resource_config_versions (committed example_world))
   \<and> in_ledger (r_id example_resource) (filter_of None) (committed example_world) example_version
   \<and> v_id example_version
       \<in> rv_ID ` set (fst (fst (Versions (pg example_md5) example_resource
                          (example_page (Some 2) None) None example_world)))
   \<and> v_id example_version
       \<in> rv_ID ` set (fst (fst (Versions (pg example_md5) example_resource
                          (example_page None (Some 2)) None example_world)))"
proof -
  have l: "in_ledger (r_id example_resource) (filter_of None) (committed example_world)
      example_version"
    by code_simp
  have p: "1 \<le> page_Limit (example_page (Some 2) None)" "1 \<le> page_Limit (example_page None (Some 2))"
    by (simp_all add: example_page_def)
  have f: "page_From (example_page (Some 2) None) = Some (v_id example_version)
      \<or> page_From (example_page (Some 2) None) = None
        \<and> page_To (example_page (Some 2) None) = Some (v_id example_version)"
    by (simp add: example_page_def example_version_def)
  have t: "page_From (example_page None (Some 2)) = Some (v_id example_version)
      \<or> page_From (example_page None (Some 2)) = None
        \<and> page_To (example_page None (Some 2)) = Some (v_id example_version)"
    by (simp add: example_page_def example_version_def)
  from Versions_cursor_inclusive [OF example_ledger example_versions_from example_version_row f]
    l p(1)
  have 1: "v_id example_version
       \<in> rv_ID ` set (fst (fst (Versions (pg example_md5) example_resource
                          (example_page (Some 2) None) None example_world)))"
    by (simp add: example_versions_from)
  from Versions_cursor_inclusive [OF example_ledger example_versions_to example_version_row t]
    l p(2)
  have 2: "v_id example_version
       \<in> rv_ID ` set (fst (fst (Versions (pg example_md5) example_resource
                          (example_page None (Some 2)) None example_world)))"
    by (simp add: example_versions_to)
  from example_ledger example_version_row l 1 2 show ?thesis
    by simp
qed

lemma sort_key_nonincreasing:
  fixes f :: "'a \<Rightarrow> int"
  shows "sorted_wrt (\<ge>) (map f (sort_key (\<lambda>x. - f x) xs))"
proof -
  have "sorted (map (\<lambda>x. - f x) (sort_key (\<lambda>x. - f x) xs))"
    by simp
  then show ?thesis
    by (simp add: sorted_wrt_map)
qed

lemma sql_versions_page_nonincreasing:
  assumes "sql_versions_page rid page vf d = Inr rows"
  shows "sorted_wrt (\<ge>) (map vs_check_order rows)"
proof (cases "page_From page")
  case (Some cursorID)
  with assms obtain sub where "rows = sort_key (\<lambda>row. - vs_check_order row) sub"
    by (auto simp: sql_versions_page_def sql_versions_from_def split: sum.splits)
  then show ?thesis
    by (simp add: sort_key_nonincreasing)
next
  case None
  with assms obtain xs where
    "sql_limit (page_Limit page) (sort_key (\<lambda>row. - vs_check_order row) xs) = Inr rows"
    by (auto simp: sql_versions_page_def sql_versions_to_def sql_versions_latest_def
        split: sum.splits option.splits)
  from sql_limit_Inr [OF this]
  have "map vs_check_order rows
      = take (nat (page_Limit page)) (map vs_check_order (sort_key (\<lambda>row. - vs_check_order row) xs))"
    by (simp add: take_map)
  moreover have "sorted_wrt (\<ge>) (take (nat (page_Limit page))
      (map vs_check_order (sort_key (\<lambda>row. - vs_check_order row) xs)))"
    by (rule sorted_wrt_take) (rule sort_key_nonincreasing)
  ultimately show ?thesis
    by simp
qed


text \<open>
  C7: a successful \<^verbatim>\<open>Versions\<close> delivers the rows of its query in descending check
  order, newest first. In a ledger that keeps its data model (check orders are
  distinct within a scope) the order is strictly descending, and for a page from
  a cursor the subquery is in strictly ascending check order and the rows
  delivered are its reverse, the same descending order as the other pages.
\<close>

theorem Versions_newest_first:
  assumes "fst (Versions (pg m) r page vf w) = (rvs, pagination, True, None)"
  shows "(\<exists>rows. sql_versions_page (r_id r) page vf (committed w) = Inr rows
            \<and> map rv_ID rvs = map vs_id rows
            \<and> sorted_wrt (\<ge>) (map vs_check_order rows))
     \<and> (ledger_invariant (committed w) \<longrightarrow>
          (\<exists>vs. set vs \<subseteq> set (resource_config_versions (committed w))
            \<and> map v_id vs = map rv_ID rvs
            \<and> sorted_wrt (>) (map v_check_order vs))
          \<and> (\<forall>cursorID sub. page_From page = Some cursorID
                \<and> sql_versions_from_sub (r_id r) cursorID (page_Limit page) (filter_of vf)
                      (committed w) = Inr sub
              \<longrightarrow> sorted_wrt (<) (map vs_check_order sub)
                  \<and> sql_versions_from (r_id r) cursorID (page_Limit page) (filter_of vf)
                        (committed w) = Inr (rev sub)
                  \<and> map rv_ID rvs = map vs_id (rev sub)))"
proof (intro conjI impI)
  from Versions_pg_found [OF assms] obtain rows where
    q: "sql_versions_page (r_id r) page vf (committed w) = Inr rows"
    and ids: "map rv_ID rvs = map vs_id rows"
    by blast
  from q ids sql_versions_page_nonincreasing [OF q]
  show "\<exists>rows. sql_versions_page (r_id r) page vf (committed w) = Inr rows
            \<and> map rv_ID rvs = map vs_id rows
            \<and> sorted_wrt (\<ge>) (map vs_check_order rows)"
    by (intro exI [of _ rows]) simp
next
  assume "ledger_invariant (committed w)"
  from Versions_strictly_descending [OF this assms]
  show "\<exists>vs. set vs \<subseteq> set (resource_config_versions (committed w))
            \<and> map v_id vs = map rv_ID rvs
            \<and> sorted_wrt (>) (map v_check_order vs)"
    by (rule conjunct1)
next
  assume "ledger_invariant (committed w)"
  from Versions_strictly_descending [OF this assms]
  show "\<forall>cursorID sub. page_From page = Some cursorID
                \<and> sql_versions_from_sub (r_id r) cursorID (page_Limit page) (filter_of vf)
                      (committed w) = Inr sub
              \<longrightarrow> sorted_wrt (<) (map vs_check_order sub)
                  \<and> sql_versions_from (r_id r) cursorID (page_Limit page) (filter_of vf)
                        (committed w) = Inr (rev sub)
                  \<and> map rv_ID rvs = map vs_id (rev sub)"
    by (rule conjunct2)
qed

theorem Versions_newest_first_witness:
  "ledger_invariant (committed example_world)
   \<and> map rv_ID (fst (fst (Versions (pg example_md5) example_resource (example_page (Some 2) None)
        None example_world))) = [3, 2]
   \<and> (\<exists>vs. set vs \<subseteq> set (resource_config_versions (committed example_world))
          \<and> map v_id vs = [3, 2] \<and> sorted_wrt (>) (map v_check_order vs))
   \<and> (\<exists>sub. sql_versions_from_sub (r_id example_resource) 2 2 [] (committed example_world) = Inr sub
          \<and> map vs_id sub = [2, 3]
          \<and> sql_versions_from (r_id example_resource) 2 2 [] (committed example_world)
              = Inr (rev sub))"
proof -
  define sub where "sub =
     [\<lparr>vs_id = 2, vs_version = JObj [(''ref'', JStr ''b'')], vs_metadata = None,
       vs_check_order = 2, vs_enabled = False\<rparr>,
      \<lparr>vs_id = 3, vs_version = JObj [(''ref'', JStr ''c'')], vs_metadata = None,
       vs_check_order = 3, vs_enabled = True\<rparr>]"
  have s: "sql_versions_from_sub (r_id example_resource) 2 2 [] (committed example_world)
      = Inr sub"
    unfolding sub_def by code_simp
  have i: "map vs_id sub = [2, 3]"
    by (simp add: sub_def)
  have ids: "map rv_ID (fst (fst (Versions (pg example_md5) example_resource
      (example_page (Some 2) None) None example_world))) = [3, 2]"
    by (simp add: example_versions_from)
  note main = Versions_newest_first [OF example_versions_from]
  from main example_ledger have 1: "\<exists>vs. set vs \<subseteq> set (resource_config_versions (committed example_world))
          \<and> map v_id vs = [3, 2] \<and> sorted_wrt (>) (map v_check_order vs)"
    by simp
  from main example_ledger s
  have "sql_versions_from (r_id example_resource) 2 2 [] (committed example_world)
              = Inr (rev sub)"
    by (simp add: example_page_def filter_of_def)
  with s i have 2: "\<exists>sub. sql_versions_from_sub (r_id example_resource) 2 2 []
            (committed example_world) = Inr sub
          \<and> map vs_id sub = [2, 3]
          \<and> sql_versions_from (r_id example_resource) 2 2 [] (committed example_world)
              = Inr (rev sub)"
    by (intro exI [of _ sub]) simp
  from example_ledger ids 1 2 show ?thesis
    by simp
qed

end
